theory Spec2Isabelle
  imports Complex_Main "HOL-Library.Word" "HOL-Library.Char_ord" "HOL-Library.List_Lexorder"
    "HOL-Library.Multiset"
begin

section \<open>The account ledger of bankacct.cpp\<close>

text \<open>
  The program keeps a \<open>vector<Account>\<close> and drives every menu from a \<open>while(true)\<close> loop
  around \<open>getch()\<close>. Each such loop is modelled as a recursive function over the list of
  values that the successive \<open>getch()\<close> calls return; a run that uses up the list is
  still inside the loop and yields the loop's state (\<open>Pending\<close>).

  Conventions of the embedding:
  \<^item> \<open>unsigned int\<close> is \<open>32 word\<close>, \<open>size_t\<close> (the type of \<open>people->size()\<close>) is
    \<open>64 word\<close>; the conversions between them that C++ applies implicitly are written
    \<open>ucast\<close>.
  \<^item> a NUL-terminated \<open>char\<close> array is the \<open>string\<close> of the characters before the
    terminator; \<open>strcmp(a, b) < 0\<close> is the lexicographic order on strings with
    characters compared by their code.
  \<^item> \<open>double\<close> is modelled by the exact rationals: \<open>+\<close>, \<open>-\<close>, \<open>*\<close> do not round and
    \<open>pow(10, place)\<close> is the exact power. No statement below is about rounding.
  \<^item> \<open>int\<close> variables that only count (\<open>place\<close>, \<open>field\<close>) are mathematical integers.
\<close>

subsection \<open>bankacct.h: the account record\<close>

record Account =
  first_name :: string
  last_name :: string
  middle :: char
  social :: "32 word"
  area :: "32 word"
  phone :: "32 word"
  balance :: rat
  number :: string
  password :: string
  nameLength :: "32 word"

subsection \<open>Key codes\<close>

text \<open>
  The values \<open>getch()\<close> returns for the keys the program tests. The \<open>KEY_\<close> codes are
  those of \<open>ncurses.h\<close>; \<open>-1\<close> (\<open>ERR\<close>) is what \<open>getch()\<close> returns in \<open>nodelay\<close> mode when no
  key is waiting.
\<close>

definition KEY_DOWN :: int where "KEY_DOWN = 258"
definition KEY_UP :: int where "KEY_UP = 259"
definition KEY_BACKSPACE :: int where "KEY_BACKSPACE = 263"
definition KEY_ENTER :: int where "KEY_ENTER = 343"
definition KEY_RESIZE :: int where "KEY_RESIZE = 410"

lemmas key_defs = KEY_DOWN_def KEY_UP_def KEY_BACKSPACE_def KEY_ENTER_def KEY_RESIZE_def

subsection \<open>mainMenu: cursor and window\<close>

text \<open>
  \<open>cursorPos\<close> is the selected row on the screen and \<open>windowPos\<close> the first record shown;
  the record handed to \<open>displayAccount\<close> is \<open>windowPos + cursorPos\<close>.
\<close>

record menu =
  cursorPos :: "32 word"
  windowPos :: "32 word"

text \<open>\<open>numRows = height - UI_ROWS > MAX_ROW ? MAX_ROW : height - UI_ROWS\<close>, in \<open>unsigned int\<close>.\<close>

definition numRows_of :: "32 word \<Rightarrow> 32 word" where
  "numRows_of height = (if height - 6 > 40 then 40 else height - 6)"

text \<open>
  The top of the loop body (lines 106 to 115): fit the window to the collection, then
  move the window down when the cursor is below it. The arithmetic with
  \<open>people->size()\<close> is done in \<open>size_t\<close> and stored back into \<open>unsigned int\<close>.
\<close>

definition fit_window :: "64 word \<Rightarrow> 32 word \<Rightarrow> menu \<Rightarrow> menu" where
  "fit_window sz numRows m =
     (let m1 =
        (if sz < ucast numRows then
           m\<lparr>cursorPos := cursorPos m + windowPos m, windowPos := 0\<rparr>
         else if ucast (windowPos m) > sz - ucast numRows then
           m\<lparr>cursorPos := ucast (ucast (cursorPos m) + (ucast (windowPos m) - (sz - ucast numRows))),
             windowPos := ucast (sz - ucast numRows)\<rparr>
         else m)
      in if cursorPos m1 \<ge> numRows
         then m1\<lparr>windowPos := windowPos m1 + (cursorPos m1 - numRows + 1)\<rparr>
         else m1)"

text \<open>\<open>case KEY_UP\<close> (lines 126 to 140).\<close>

definition key_up :: "64 word \<Rightarrow> 32 word \<Rightarrow> menu \<Rightarrow> menu" where
  "key_up sz numRows m =
     (if cursorPos m \<noteq> 0 then m\<lparr>cursorPos := cursorPos m - 1\<rparr>
      else if sz \<le> ucast numRows then m\<lparr>cursorPos := ucast (sz - 1)\<rparr>
      else if windowPos m \<noteq> 0 then m\<lparr>windowPos := windowPos m - 1\<rparr>
      else m\<lparr>cursorPos := numRows - 1,
             windowPos := ucast (sz - ucast (numRows - 1) - 1)\<rparr>)"

text \<open>\<open>case KEY_DOWN\<close> (lines 141 to 150).\<close>

definition key_down :: "64 word \<Rightarrow> 32 word \<Rightarrow> menu \<Rightarrow> menu" where
  "key_down sz height m =
     (if ucast (cursorPos m + windowPos m) \<ge> sz - 1 then m\<lparr>cursorPos := 0, windowPos := 0\<rparr>
      else if cursorPos m = 40 - 1 \<or> cursorPos m = height - 7
        then m\<lparr>windowPos := windowPos m + 1\<rparr>
      else m\<lparr>cursorPos := cursorPos m + 1\<rparr>)"

text \<open>
  One pass of the loop of \<open>mainMenu\<close> for the keys that only move the selection: the
  terminal height read by \<open>getmaxyx\<close> in this pass, then the key. Any key without a
  \<open>case\<close> (such as the \<open>KEY_RESIZE\<close> that ncurses delivers after a resize) leaves the two
  variables as the top of the loop set them.
\<close>

definition menu_pass :: "64 word \<Rightarrow> menu \<Rightarrow> 32 word \<times> int \<Rightarrow> menu" where
  "menu_pass sz m ev =
     (let height = fst ev; ch = snd ev;
          numRows = numRows_of height;
          m1 = fit_window sz numRows m
      in if ch = KEY_UP then key_up sz numRows m1
         else if ch = KEY_DOWN then key_down sz height m1
         else m1)"

definition menu_run :: "64 word \<Rightarrow> (32 word \<times> int) list \<Rightarrow> menu" where
  "menu_run sz evs = foldl (menu_pass sz) \<lparr>cursorPos = 0, windowPos = 0\<rparr> evs"

text \<open>The index passed to \<open>displayAccount\<close> (\<open>windowPos + cursorPos\<close>, an \<open>unsigned int\<close>).\<close>

definition selected :: "menu \<Rightarrow> nat" where
  "selected m = unat (windowPos m + cursorPos m)"

text \<open>
  The relation between the two variables, the number of rows and the size of the
  collection that the cases KEY_UP and KEY_DOWN keep while the terminal keeps its
  height: the cursor is on a row of the window, the selected index exists, and the
  window neither starts after the place where the last record is on the last row nor
  is scrolled when all records fit.
\<close>

definition menu_ok :: "64 word \<Rightarrow> 32 word \<Rightarrow> menu \<Rightarrow> bool" where
  "menu_ok sz numRows m \<longleftrightarrow>
     unat (cursorPos m) < unat numRows \<and>
     unat (cursorPos m) + unat (windowPos m) < unat sz \<and>
     (unat sz < unat numRows \<longrightarrow> windowPos m = 0) \<and>
     (unat numRows \<le> unat sz \<longrightarrow> unat (windowPos m) + unat numRows \<le> unat sz)"


subsection \<open>The loops around getch()\<close>

text \<open>
  What a loop has done when the recorded \<open>getch()\<close> values are used up: it is still
  waiting for a key (\<open>Pending\<close>, with the loop's variables), the function has returned
  (\<open>Return\<close>), or the key was CTRL-C and the process has called \<open>exit(0)\<close>.
\<close>

datatype ('s, 'r) run = Pending 's | Return 'r | Exit

subsection \<open>numPlaces and the library functions on double\<close>

text \<open>
  \<open>numPlaces(long long i)\<close>, on the mathematical integers. The source's \<open>i *= -1\<close> overflows
  for the least \<open>long long\<close> only, so the function below is the source's for every
  argument above \<open>-2^63\<close> and below \<open>2^63\<close>.
\<close>

function numPlaces_loop :: "int \<Rightarrow> int \<Rightarrow> int" where
  "numPlaces_loop i places =
     (if i \<ge> 10 then numPlaces_loop (i div 10) (places + 1) else places)"
  by pat_completeness auto
termination
  by (relation "measure (\<lambda>(i, places). nat i)") auto

declare numPlaces_loop.simps [simp del]

definition numPlaces :: "int \<Rightarrow> int" where
  "numPlaces i = (if i < 0 then numPlaces_loop (i * (- 1)) (1 + 1) else numPlaces_loop i 1)"

text \<open>
  The conversion of a \<open>double\<close> argument to \<open>long long\<close> truncates towards zero. C++
  defines it for the values whose truncation is a \<open>long long\<close>, that is for those
  strictly between \<open>-2^63 - 1\<close> and \<open>2^63\<close>; the function below is the conversion there.
  The general statements on the digit cases keep the balance in that range.
\<close>

definition to_long_long :: "rat \<Rightarrow> int" where
  "to_long_long x = (if x < 0 then \<lceil>x\<rceil> else \<lfloor>x\<rfloor>)"

text \<open>\<open>fmod(x, y)\<close>: the remainder of \<open>x / y\<close> with the quotient truncated towards zero.\<close>

definition fmod :: "rat \<Rightarrow> rat \<Rightarrow> rat" where
  "fmod x y = x - of_int (to_long_long (x / y)) * y"

definition pow10 :: "int \<Rightarrow> rat" where
  "pow10 p = 10 powi p"

subsection \<open>Entering an amount: deposit, withdraw, transferAmmount\<close>

text \<open>The three locals \<open>newBalance\<close>, \<open>place\<close> and \<open>confirm\<close> of each of the three functions.\<close>

record entry =
  newBalance :: rat
  place :: int
  confirm :: bool

definition entry0 :: entry where
  "entry0 = \<lparr>newBalance = 0, place = 0, confirm = False\<rparr>"

text \<open>
  The statements shared by the digit cases once a digit is taken:
  \<open>newBalance += (in - '0') * pow(10, place); if(place) place--;\<close>
\<close>

definition add_digit :: "entry \<Rightarrow> int \<Rightarrow> entry" where
  "add_digit e inp =
     (let e1 = e\<lparr>newBalance := newBalance e + of_int (inp - 48) * pow10 (place e)\<rparr>
      in if place e1 \<noteq> 0 then e1\<lparr>place := place e1 - 1\<rparr> else e1)"

text \<open>
  \<open>case '0'\<close> to \<open>case '9'\<close> of \<open>deposit\<close> (lines 474 to 494); \<open>bal\<close> is \<open>acc->balance\<close>.
  A \<open>continue\<close> goes back to the top of the loop with the variables as they are.
\<close>

definition deposit_digit :: "rat \<Rightarrow> entry \<Rightarrow> int \<Rightarrow> entry" where
  "deposit_digit bal e inp =
     (if inp = 48 \<and> newBalance e = 0 then e
      else
        let e1 = e\<lparr>confirm := False\<rparr> in
        if place e1 < - 2 then e1
        else if place e1 = 0 then
          (if numPlaces (to_long_long (bal + newBalance e1)) \<ge> 12 then e1
           else add_digit (e1\<lparr>newBalance := newBalance e1 * 10\<rparr>) inp)
        else add_digit e1 inp)"

text \<open>The same cases of \<open>withdraw\<close> (lines 588 to 605).\<close>

definition withdraw_digit :: "rat \<Rightarrow> entry \<Rightarrow> int \<Rightarrow> entry" where
  "withdraw_digit bal e inp =
     (if inp = 48 \<and> newBalance e = 0 then e
      else
        let e1 = e\<lparr>confirm := False\<rparr> in
        if bal - newBalance e1 < 0 then e1
        else if place e1 = 0 then add_digit (e1\<lparr>newBalance := newBalance e1 * 10\<rparr>) inp
        else add_digit e1 inp)"

text \<open>
  The same cases of \<open>transferAmmount\<close> (lines 887 to 907); \<open>fbal\<close> is \<open>from->balance\<close>
  and \<open>tbal\<close> is \<open>to->balance\<close>.
\<close>

definition transfer_digit :: "rat \<Rightarrow> rat \<Rightarrow> entry \<Rightarrow> int \<Rightarrow> entry" where
  "transfer_digit fbal tbal e inp =
     (if inp = 48 \<and> newBalance e = 0 then e
      else
        let e1 = e\<lparr>confirm := False\<rparr> in
        if place e1 < - 2 then e1
        else if place e1 = 0 then
          (if numPlaces (to_long_long (tbal + newBalance e1)) \<ge> 12 \<or> fbal - newBalance e1 < 0
           then e1
           else add_digit (e1\<lparr>newBalance := newBalance e1 * 10\<rparr>) inp)
        else add_digit e1 inp)"

text \<open>\<open>case '.'\<close> and \<open>case KEY_BACKSPACE\<close>, the same text in the three functions.\<close>

definition decimal_point :: "entry \<Rightarrow> entry" where
  "decimal_point e =
     (let e1 = e\<lparr>confirm := False\<rparr>
      in if place e1 = 0 then e1\<lparr>place := place e1 - 1\<rparr> else e1)"

definition backspace :: "entry \<Rightarrow> entry" where
  "backspace e =
     (let e1 = e\<lparr>confirm := False\<rparr>
      in if place e1 \<noteq> 0
         then e1\<lparr>newBalance := newBalance e1 - fmod (newBalance e1) (pow10 (place e1 + 2)),
                 place := place e1 + 1\<rparr>
         else e1\<lparr>newBalance := of_int \<lfloor>newBalance e1 / 10\<rfloor>\<rparr>)"

text \<open>
  \<open>deposit(people, person)\<close>: the loop, and the function that enters it with
  \<open>newBalance = 0\<close>, \<open>place = 0\<close>, \<open>confirm = false\<close>. After ESC (27) the next \<open>getch()\<close>
  is made in \<open>nodelay\<close> mode: \<open>-1\<close> means a plain ESC, anything else starts a
  function-key sequence of which three more values are read and dropped.
\<close>

fun deposit_loop ::
  "Account list \<Rightarrow> nat \<Rightarrow> entry \<Rightarrow> int list \<Rightarrow> (entry, Account list) run" where
  "deposit_loop people person e [] = Pending e"
| "deposit_loop people person e (inp # ks) =
     (if inp = 3 then Exit
      else if inp = 27 then
        (case ks of
           [] \<Rightarrow> Pending e
         | k2 # r \<Rightarrow>
             if k2 = - 1 then
               (if confirm e then deposit_loop people person (e\<lparr>confirm := False\<rparr>) r
                else Return people)
             else deposit_loop people person e (drop 3 r))
      else if 48 \<le> inp \<and> inp \<le> 57 then
        deposit_loop people person (deposit_digit (balance (people ! person)) e inp) ks
      else if inp = 46 then deposit_loop people person (decimal_point e) ks
      else if inp = KEY_BACKSPACE then deposit_loop people person (backspace e) ks
      else if inp = KEY_ENTER \<or> inp = 10 then
        (if confirm e then
           Return (people[person := (people ! person)
             \<lparr>balance := balance (people ! person) + newBalance e\<rparr>])
         else deposit_loop people person (e\<lparr>confirm := True\<rparr>) ks)
      else deposit_loop people person e ks)"

definition deposit :: "Account list \<Rightarrow> nat \<Rightarrow> int list \<Rightarrow> (entry, Account list) run" where
  "deposit people person ks = deposit_loop people person entry0 ks"

text \<open>\<open>withdraw(people, person)\<close>.\<close>

fun withdraw_loop ::
  "Account list \<Rightarrow> nat \<Rightarrow> entry \<Rightarrow> int list \<Rightarrow> (entry, Account list) run" where
  "withdraw_loop people person e [] = Pending e"
| "withdraw_loop people person e (inp # ks) =
     (if inp = 3 then Exit
      else if inp = 27 then
        (case ks of
           [] \<Rightarrow> Pending e
         | k2 # r \<Rightarrow>
             if k2 = - 1 then
               (if confirm e then withdraw_loop people person (e\<lparr>confirm := False\<rparr>) r
                else Return people)
             else withdraw_loop people person e (drop 3 r))
      else if 48 \<le> inp \<and> inp \<le> 57 then
        withdraw_loop people person (withdraw_digit (balance (people ! person)) e inp) ks
      else if inp = 46 then withdraw_loop people person (decimal_point e) ks
      else if inp = KEY_BACKSPACE then withdraw_loop people person (backspace e) ks
      else if inp = KEY_ENTER \<or> inp = 10 then
        (if confirm e then
           Return (people[person := (people ! person)
             \<lparr>balance := balance (people ! person) - newBalance e\<rparr>])
         else if balance (people ! person) - newBalance e \<ge> 0 then
           withdraw_loop people person (e\<lparr>confirm := True\<rparr>) ks
         else withdraw_loop people person e ks)
      else withdraw_loop people person e ks)"

definition withdraw :: "Account list \<Rightarrow> nat \<Rightarrow> int list \<Rightarrow> (entry, Account list) run" where
  "withdraw people person ks = withdraw_loop people person entry0 ks"

text \<open>
  \<open>transferAmmount(from, to)\<close>. The two pointers point into the vector; they are the
  indices \<open>from\<close> and \<open>to\<close> here, and the two assignments of the commit are made one
  after the other, as in the source, so that the model also covers \<open>from == to\<close>.
\<close>

definition transfer_commit :: "Account list \<Rightarrow> nat \<Rightarrow> nat \<Rightarrow> rat \<Rightarrow> Account list" where
  "transfer_commit people from to amount =
     (let p1 = people[from := (people ! from)\<lparr>balance := balance (people ! from) - amount\<rparr>]
      in p1[to := (p1 ! to)\<lparr>balance := balance (p1 ! to) + amount\<rparr>])"

fun transferAmmount_loop ::
  "Account list \<Rightarrow> nat \<Rightarrow> nat \<Rightarrow> entry \<Rightarrow> int list \<Rightarrow> (entry, Account list) run" where
  "transferAmmount_loop people from to e [] = Pending e"
| "transferAmmount_loop people from to e (inp # ks) =
     (if inp = 3 then Exit
      else if inp = 27 then
        (case ks of
           [] \<Rightarrow> Pending e
         | k2 # r \<Rightarrow>
             if k2 = - 1 then
               (if confirm e then transferAmmount_loop people from to (e\<lparr>confirm := False\<rparr>) r
                else Return people)
             else transferAmmount_loop people from to e (drop 3 r))
      else if 48 \<le> inp \<and> inp \<le> 57 then
        transferAmmount_loop people from to
          (transfer_digit (balance (people ! from)) (balance (people ! to)) e inp) ks
      else if inp = 46 then transferAmmount_loop people from to (decimal_point e) ks
      else if inp = KEY_BACKSPACE then transferAmmount_loop people from to (backspace e) ks
      else if inp = KEY_ENTER \<or> inp = 10 then
        (if confirm e then Return (transfer_commit people from to (newBalance e))
         else transferAmmount_loop people from to (e\<lparr>confirm := True\<rparr>) ks)
      else transferAmmount_loop people from to e ks)"

definition transferAmmount ::
  "Account list \<Rightarrow> nat \<Rightarrow> nat \<Rightarrow> int list \<Rightarrow> (entry, Account list) run" where
  "transferAmmount people from to ks = transferAmmount_loop people from to entry0 ks"

text \<open>An account for the closed examples (the sample row of the source's menu sketch).\<close>

definition sample :: "string \<Rightarrow> rat \<Rightarrow> Account" where
  "sample num bal =
     \<lparr>first_name = ''John'', last_name = ''Doe'', middle = CHR ''C'', social = 987654321,
      area = 888, phone = 7776666, balance = bal, number = num, password = ''secret'',
      nameLength = 11\<rparr>"

subsection \<open>Predicates used in the statements\<close>

text \<open>
  \<open>only_balance_changed people people' S\<close>: the two collections have the same size, every
  account of \<open>people'\<close> is the account of \<open>people\<close> at the same index with at most its
  balance replaced, and the accounts at indices outside \<open>S\<close> are the same.
\<close>

definition only_balance_changed :: "Account list \<Rightarrow> Account list \<Rightarrow> nat set \<Rightarrow> bool" where
  "only_balance_changed people people' S \<longleftrightarrow>
     length people' = length people \<and>
     (\<forall>k < length people.
        people' ! k = (people ! k)\<lparr>balance := balance (people' ! k)\<rparr> \<and>
        (k \<notin> S \<longrightarrow> people' ! k = people ! k))"

text \<open>
  The relation between \<open>confirm\<close> and the amount that the loop of \<open>withdraw\<close> keeps:
  \<open>confirm\<close> is set only while the amount does not exceed the balance.
\<close>

definition armed_ok :: "rat \<Rightarrow> entry \<Rightarrow> bool" where
  "armed_ok bal e \<longleftrightarrow> (confirm e \<longrightarrow> bal - newBalance e \<ge> 0)"

subsection \<open>Digit sequences\<close>

text \<open>
  The digits that \<open>deposit\<close> takes from a sequence of digit keys typed before any
  decimal point, when the account holds \<open>bal\<close> and the amount entered so far is \<open>a\<close>: a
  key is passed over when it is a 0 typed at amount zero, or when \<open>bal + a\<close> is at least
  \<open>10^11\<close> or at most \<open>-10^10\<close>; otherwise its digit is taken and the amount becomes
  \<open>a * 10 + d\<close>. \<open>digits_value\<close> is the integer that a list of digits forms.
\<close>

fun accepted_digits :: "rat \<Rightarrow> int \<Rightarrow> int list \<Rightarrow> int list" where
  "accepted_digits bal a [] = []"
| "accepted_digits bal a (inp # ks) =
     (if (inp = 48 \<and> a = 0) \<or> bal + of_int a \<ge> 10 ^ 11 \<or> bal + of_int a \<le> - (10 ^ 10)
      then accepted_digits bal a ks
      else (inp - 48) # accepted_digits bal (a * 10 + (inp - 48)) ks)"

definition digits_value :: "int list \<Rightarrow> int" where
  "digits_value ds = foldl (\<lambda>a d. a * 10 + d) 0 ds"

text \<open>
  The amount after a sequence of digit keys as the specification words the rule: a 0
  at amount zero is passed over, a digit is rejected when the whole part it would give
  has more than 12 digits, and otherwise the amount becomes \<open>a * 10 + d\<close>.
\<close>

fun spec_digits :: "int \<Rightarrow> int list \<Rightarrow> int" where
  "spec_digits a [] = a"
| "spec_digits a (inp # ks) =
     (if inp = 48 \<and> a = 0 then spec_digits a ks
      else if a * 10 + (inp - 48) \<ge> 10 ^ 12 then spec_digits a ks
      else spec_digits (a * 10 + (inp - 48)) ks)"

subsection \<open>Character classes of the C library\<close>

text \<open>
  \<open>isdigit\<close>, \<open>isalpha\<close>, \<open>isalnum\<close> and \<open>toupper\<close> on the value a key has, for the
  characters of ASCII (as in the C and the UTF-8 locales).
\<close>

definition isdigit :: "int \<Rightarrow> bool" where
  "isdigit c \<longleftrightarrow> 48 \<le> c \<and> c \<le> 57"

definition isalpha :: "int \<Rightarrow> bool" where
  "isalpha c \<longleftrightarrow> (65 \<le> c \<and> c \<le> 90) \<or> (97 \<le> c \<and> c \<le> 122)"

definition isalnum :: "int \<Rightarrow> bool" where
  "isalnum c \<longleftrightarrow> isdigit c \<or> isalpha c"

definition toupper :: "int \<Rightarrow> int" where
  "toupper c = (if 97 \<le> c \<and> c \<le> 122 then c - 32 else c)"

subsection \<open>verify\<close>

text \<open>
  \<open>verify(acc)\<close>: the loop variable is the buffer \<open>pass\<close>. When the sixth character
  does not complete a right password, the function prints its message and waits for
  one more key before it returns \<open>false\<close>.
\<close>

fun verify_loop :: "Account \<Rightarrow> string \<Rightarrow> int list \<Rightarrow> (string, bool) run" where
  "verify_loop acc pass [] = Pending pass"
| "verify_loop acc pass (inp # ks) =
     (if inp = 3 then Exit
      else if inp = KEY_BACKSPACE then
        verify_loop acc (if length pass \<noteq> 0 then butlast pass else pass) ks
      else if inp = 27 then
        (case ks of
           [] \<Rightarrow> Pending pass
         | k2 # r \<Rightarrow> if k2 = - 1 then Return False else verify_loop acc pass (drop 3 r))
      else if \<not> isalnum inp \<or> length pass \<ge> 6 then verify_loop acc pass ks
      else
        let pass1 = pass @ [char_of inp] in
        if length pass1 = 6 then
          (if pass1 = password acc \<or> pass1 = ''passwo'' then Return True
           else (case ks of [] \<Rightarrow> Pending pass1 | k2 # r \<Rightarrow> Return False))
        else verify_loop acc pass1 ks)"

definition verify :: "Account \<Rightarrow> int list \<Rightarrow> (string, bool) run" where
  "verify acc ks = verify_loop acc [] ks"


subsection \<open>openAccount\<close>

text \<open>
  The locals of \<open>openAccount\<close>: the number of the field being typed, the account under
  construction and the text typed so far, the string held in \<open>char buf[50]\<close>.
\<close>

record form =
  field :: int
  newPerson :: Account
  buf :: string

text \<open>\<open>atoi\<close> and \<open>atof\<close> on the strings of digits that the form lets through.\<close>

definition atoi :: "string \<Rightarrow> int" where
  "atoi s = foldl (\<lambda>a c. a * 10 + (of_char c - 48)) 0 (takeWhile (\<lambda>c. isdigit (of_char c)) s)"

definition atof :: "string \<Rightarrow> rat" where
  "atof s =
     (let whole = takeWhile (\<lambda>c. isdigit (of_char c)) s;
          rest = dropWhile (\<lambda>c. isdigit (of_char c)) s;
          frac = (case rest of [] \<Rightarrow> [] | c # r \<Rightarrow>
                    if c = CHR ''.'' then takeWhile (\<lambda>c. isdigit (of_char c)) r else [])
      in of_int (atoi whole) + of_int (atoi frac) / 10 ^ length frac)"

text \<open>The \<open>switch(field)\<close> of the ENTER case, fields 0 to 7 (lines 1120 to 1168).\<close>

definition accept_field :: "form \<Rightarrow> form" where
  "accept_field f =
     (let b = buf f; p = newPerson f; nxt = (\<lambda>q. \<lparr>field = field f + 1, newPerson = q, buf = []\<rparr>)
      in if field f = 0 then (if length b < 3 then f else nxt (p\<lparr>first_name := b\<rparr>))
         else if field f = 1 then (if length b < 3 then f else nxt (p\<lparr>last_name := b\<rparr>))
         else if field f = 2 then (if length b \<noteq> 1 then f else nxt (p\<lparr>middle := hd b\<rparr>))
         else if field f = 3 then
           (if length b \<noteq> 9 then f else nxt (p\<lparr>social := of_int (atoi b)\<rparr>))
         else if field f = 4 then
           (if length b \<noteq> 3 then f else nxt (p\<lparr>area := of_int (atoi b)\<rparr>))
         else if field f = 5 then
           (if length b \<noteq> 7 then f else nxt (p\<lparr>phone := of_int (atoi b)\<rparr>))
         else if field f = 6 then (if length b = 0 then f else nxt (p\<lparr>balance := atof b\<rparr>))
         else if field f = 7 then (if length b \<noteq> 5 then f else nxt (p\<lparr>number := b\<rparr>))
         else f)"

text \<open>
  The \<open>default\<close> case (lines 1179 to 1242): the character is appended to \<open>buf\<close> when the
  field allows it, in upper case for the account number and the password. A key that
  is not alphanumeric is dropped before the field is looked at.

  \<open>buf\<close> has 50 bytes and the fields 0, 1 and 6 put no limit on what is typed. The
  assignment \<open>buf[strlen(buf)] = in\<close> of a 50th character takes the place of the last
  terminator; the redraw at the top of the loop then reads \<open>buf\<close> as a string past its
  end, which C++ leaves undefined. The result is \<open>None\<close> there.
\<close>

definition type_char :: "form \<Rightarrow> int \<Rightarrow> form option" where
  "type_char f inp =
     (let b = buf f;
          put = (\<lambda>c. if length b < 49 then Some (f\<lparr>buf := b @ [char_of c]\<rparr>) else None)
      in if \<not> isalnum inp then Some f
         else if field f = 2 then
           (if length b \<ge> 1 then Some f else if \<not> isalpha inp then Some f else put inp)
         else if field f = 0 \<or> field f = 1 then (if \<not> isalpha inp then Some f else put inp)
         else if field f = 3 then
           (if \<not> isdigit inp \<or> length b \<ge> 9 then Some f else put inp)
         else if field f = 4 then
           (if \<not> isdigit inp \<or> length b \<ge> 3 then Some f else put inp)
         else if field f = 5 then
           (if \<not> isdigit inp \<or> length b \<ge> 7 then Some f else put inp)
         else if field f = 6 then
           (if \<not> isdigit inp then (if inp = 46 \<and> CHR ''.'' \<notin> set b then put inp else Some f)
            else if CHR ''.'' \<in> set b \<and> length (dropWhile (\<lambda>c. c \<noteq> CHR ''.'') b) \<ge> 2
            then Some f
            else put inp)
         else if field f = 7 then
           (if \<not> isalnum inp \<or> length b \<ge> 5 then Some f else put (toupper inp))
         else if field f = 8 then
           (if \<not> isalnum inp \<or> length b \<ge> 6 then Some f else put (toupper inp))
         else put inp)"

text \<open>
  The comparison handed to \<open>std::sort\<close> is \<open>strcmp(a.number, b.number) < 0\<close>. \<open>std::sort\<close>
  returns a permutation ordered by it and leaves the order of accounts with equal
  numbers open; the model takes the insertion sort \<open>sort_key\<close>, and the statements
  about the result use its order by number and its elements only.
\<close>

definition sort_by_number :: "Account list \<Rightarrow> Account list" where
  "sort_by_number people = sort_key number people"

text \<open>
  The loop of \<open>openAccount\<close>; \<open>None\<close> is the run that has read \<open>buf\<close> past its end.
\<close>

fun openAccount_loop ::
  "Account list \<Rightarrow> form \<Rightarrow> int list \<Rightarrow> (form, Account list) run option" where
  "openAccount_loop people f [] = Some (Pending f)"
| "openAccount_loop people f (inp # ks) =
     (if inp = 3 then Some Exit
      else if inp = KEY_BACKSPACE then
        openAccount_loop people (if length (buf f) \<noteq> 0 then f\<lparr>buf := butlast (buf f)\<rparr> else f) ks
      else if inp = 27 then
        (case ks of
           [] \<Rightarrow> Some (Pending f)
         | k2 # r \<Rightarrow>
             if k2 = - 1 then Some (Return people) else openAccount_loop people f (drop 3 r))
      else if inp = KEY_ENTER \<or> inp = 10 then
        (if field f = 8 then
           (if length (buf f) \<noteq> 6 then openAccount_loop people f ks
            else Some (Return (sort_by_number (people @ [(newPerson f)\<lparr>password := buf f\<rparr>]))))
         else openAccount_loop people (accept_field f) ks)
      else
        (case type_char f inp of
           None \<Rightarrow> None
         | Some f' \<Rightarrow> openAccount_loop people f' ks))"

text \<open>
  \<open>openAccount(people)\<close>. \<open>newPerson\<close> is declared without an initial value; \<open>junk\<close> stands
  for what it holds then (\<open>nameLength\<close> is never assigned).
\<close>

definition openAccount ::
  "Account list \<Rightarrow> Account \<Rightarrow> int list \<Rightarrow> (form, Account list) run option" where
  "openAccount people junk ks =
     openAccount_loop people \<lparr>field = 0, newPerson = junk, buf = []\<rparr> ks"

text \<open>The key codes of the characters of a string.\<close>

definition keys :: "string \<Rightarrow> int list" where
  "keys s = map of_char s"

subsection \<open>Filling the form of openAccount\<close>

text \<open>
  The keys that type the nine fields of the form one after the other, each ended by
  ENTER (10), and the text that the fields 7 and 8 store for what is typed
  (\<open>in = toupper(in)\<close>).
\<close>

definition form_keys ::
  "string \<Rightarrow> string \<Rightarrow> char \<Rightarrow> string \<Rightarrow> string \<Rightarrow> string \<Rightarrow> string \<Rightarrow> string \<Rightarrow> string \<Rightarrow> int list"
  where
  "form_keys fi la mi so ar ph ba nu pw =
     keys fi @ [10] @ keys la @ [10] @ keys [mi] @ [10] @ keys so @ [10] @ keys ar @ [10] @
     keys ph @ [10] @ keys ba @ [10] @ keys nu @ [10] @ keys pw @ [10]"

definition upper :: "string \<Rightarrow> string" where
  "upper s = map (\<lambda>c. char_of (toupper (of_char c))) s"

subsection \<open>A run of openAccount for the closed examples\<close>

text \<open>
  A filling of the form and the account it makes. The account number is typed in lower
  case and stored in upper case, as is the password.
\<close>

definition new_account_keys :: "int list" where
  "new_account_keys =
     form_keys ''Jane'' ''Roe'' (CHR ''Q'') ''123456789'' ''555'' ''1234567'' ''50'' ''a0001''
       ''hunter''"

definition new_account :: Account where
  "new_account =
     \<lparr>first_name = ''Jane'', last_name = ''Roe'', middle = CHR ''Q'', social = 123456789,
      area = 555, phone = 1234567, balance = 50, number = ''A0001'', password = ''HUNTER'',
      nameLength = 0\<rparr>"

subsection \<open>Writing the database: the destructor of WriteOnShutdown\<close>

text \<open>
  The file is the string of its characters. \<open>operator<<\<close> writes an \<open>unsigned int\<close> in
  decimal and a \<open>double\<close> in the default format of a stream, which is that of \<open>%g\<close> with
  precision 6: six significant digits, trailing zeros removed, scientific notation when
  the decimal exponent is below -4 or at least 6.
\<close>

function digits_of :: "int \<Rightarrow> string" where
  "digits_of n =
     (if n < 10 then [char_of (48 + n)] else digits_of (n div 10) @ [char_of (48 + n mod 10)])"
  by pat_completeness auto
termination
  by (relation "measure nat") auto

declare digits_of.simps [simp del]

definition show_unsigned :: "32 word \<Rightarrow> string" where
  "show_unsigned w = digits_of (uint w)"

text \<open>The decimal exponent \<open>e\<close> of a positive number: \<open>10^e \<le> x < 10^(e+1)\<close>.\<close>

function exp_up :: "rat \<Rightarrow> int" where
  "exp_up x = (if x \<ge> 10 then 1 + exp_up (x / 10) else 0)"
  by pat_completeness auto
termination
proof (relation "measure (\<lambda>x. nat \<lfloor>x\<rfloor>)")
  show "wf (measure (\<lambda>x::rat. nat \<lfloor>x\<rfloor>))" by simp
next
  fix x :: rat assume x: "10 \<le> x"
  then have "\<lfloor>x / 10\<rfloor> < \<lfloor>x\<rfloor>" by (simp add: floor_less_iff) linarith
  moreover have "0 < \<lfloor>x\<rfloor>" using x by (simp add: less_floor_iff)
  ultimately show "(x / 10, x) \<in> measure (\<lambda>x. nat \<lfloor>x\<rfloor>)" by simp
qed

function exp_down :: "rat \<Rightarrow> int" where
  "exp_down x = (if 0 < x \<and> x < 1 then exp_down (x * 10) - 1 else 0)"
  by pat_completeness auto
termination
proof (relation "measure (\<lambda>x. nat \<lceil>1 / x\<rceil>)")
  show "wf (measure (\<lambda>x::rat. nat \<lceil>1 / x\<rceil>))" by simp
next
  fix x :: rat assume x: "0 < x \<and> x < 1"
  then have "1 < 1 / x" by simp
  then have a: "1 / x \<le> of_int \<lceil>1 / x\<rceil>" "2 \<le> \<lceil>1 / x\<rceil>" by (simp_all add: le_ceiling_iff)
  have "1 / (x * 10) = (1 / x) / 10" by simp
  also have "\<dots> \<le> of_int \<lceil>1 / x\<rceil> / 10" using a(1) by simp
  also have "\<dots> \<le> of_int (\<lceil>1 / x\<rceil> - 1)"
  proof -
    have "(2::rat) \<le> of_int \<lceil>1 / x\<rceil>" using a(2) by linarith
    then have "of_int \<lceil>1 / x\<rceil> / 10 \<le> of_int \<lceil>1 / x\<rceil> - (1::rat)" by linarith
    then show ?thesis by simp
  qed
  finally have "\<lceil>1 / (x * 10)\<rceil> \<le> \<lceil>1 / x\<rceil> - 1" by (simp only: ceiling_le_iff)
  with a(2) x show "(x * 10, x) \<in> measure (\<lambda>x. nat \<lceil>1 / x\<rceil>)" by simp
qed

declare exp_up.simps [simp del] exp_down.simps [simp del]

definition decimal_exponent :: "rat \<Rightarrow> int" where
  "decimal_exponent x = (if x \<ge> 1 then exp_up x else exp_down x)"

definition round_half_even :: "rat \<Rightarrow> int" where
  "round_half_even x =
     (let f = \<lfloor>x\<rfloor>; r = x - of_int f
      in if r < 1 / 2 then f else if r > 1 / 2 then f + 1 else if even f then f else f + 1)"

definition strip_zeros :: "string \<Rightarrow> string" where
  "strip_zeros s = rev (dropWhile (\<lambda>c. c = CHR ''0'') (rev s))"

definition pad_left :: "nat \<Rightarrow> string \<Rightarrow> string" where
  "pad_left n s = replicate (n - length s) (CHR ''0'') @ s"

text \<open>A positive number in the format of \<open>%g\<close> with precision 6.\<close>

definition show_positive :: "rat \<Rightarrow> string" where
  "show_positive x =
     (let e0 = decimal_exponent x;
          m0 = round_half_even (x * 10 powi (5 - e0));
          m = (if m0 \<ge> 10 ^ 6 then m0 div 10 else m0);
          e = (if m0 \<ge> 10 ^ 6 then e0 + 1 else e0)
      in if e < - 4 \<or> e \<ge> 6 then
           (let ds = digits_of m; frac = strip_zeros (tl ds)
            in [hd ds] @ (if frac = [] then [] else CHR ''.'' # frac) @ ''e'' @
               (if e < 0 then ''-'' else ''+'') @ pad_left 2 (digits_of \<bar>e\<bar>))
         else
           (let k = nat (5 - e);
                whole = digits_of (m div 10 ^ k);
                frac = strip_zeros (pad_left k (digits_of (m mod 10 ^ k)))
            in whole @ (if k = 0 \<or> frac = [] then [] else CHR ''.'' # frac)))"

definition show_double :: "rat \<Rightarrow> string" where
  "show_double x =
     (if x = 0 then ''0'' else if x < 0 then CHR ''-'' # show_positive (- x) else show_positive x)"

definition endl :: string where
  "endl = [CHR 0x0A]"

text \<open>The body of the loop of \<open>~WriteOnShutdown()\<close> (bankacct.h, lines 94 to 102).\<close>

definition write_account :: "Account \<Rightarrow> string" where
  "write_account acc =
     first_name acc @ endl @
     last_name acc @ endl @
     [middle acc] @ endl @
     show_unsigned (social acc) @ endl @
     show_unsigned (area acc) @ endl @
     show_unsigned (phone acc) @ endl @
     show_double (balance acc) @ endl @
     number acc @ endl @
     password acc @ endl @ endl"

definition write_on_shutdown :: "Account list \<Rightarrow> string" where
  "write_on_shutdown database = concat (map write_account database)"

subsection \<open>Reading the database: loadDatabase\<close>

text \<open>
  An input stream: the characters not yet read and the two state bits that the loop
  tests or that stop an extraction. Every \<open>operator>>\<close> first checks that no bit is set
  (else it sets \<open>failbit\<close> and reads nothing) and skips white space; reaching the end
  there sets both bits.
\<close>

record istream =
  unread :: string
  eofbit :: bool
  failbit :: bool

definition isspace :: "char \<Rightarrow> bool" where
  "isspace c \<longleftrightarrow> c = CHR '' '' \<or> (9 \<le> (of_char c :: int) \<and> (of_char c :: int) \<le> 13)"

definition sentry :: "istream \<Rightarrow> bool \<times> istream" where
  "sentry s =
     (if eofbit s \<or> failbit s then (False, s\<lparr>failbit := True\<rparr>)
      else
        let r = dropWhile isspace (unread s) in
        if r = [] then (False, s\<lparr>unread := [], eofbit := True, failbit := True\<rparr>)
        else (True, s\<lparr>unread := r\<rparr>))"

text \<open>
  The four extractions the loader uses. The value is \<open>None\<close> when nothing is stored
  into the variable. Reading a word or a number up to the end of the file sets
  \<open>eofbit\<close>; reading a single character does not.
\<close>

definition get_string :: "istream \<Rightarrow> string option \<times> istream" where
  "get_string s =
     (case sentry s of
        (False, s1) \<Rightarrow> (None, s1)
      | (True, s1) \<Rightarrow>
          let w = takeWhile (\<lambda>c. \<not> isspace c) (unread s1);
              r = dropWhile (\<lambda>c. \<not> isspace c) (unread s1)
          in (Some w, s1\<lparr>unread := r, eofbit := (r = [])\<rparr>))"

definition get_char :: "istream \<Rightarrow> char option \<times> istream" where
  "get_char s =
     (case sentry s of
        (False, s1) \<Rightarrow> (None, s1)
      | (True, s1) \<Rightarrow> (Some (hd (unread s1)), s1\<lparr>unread := tl (unread s1)\<rparr>))"

definition is_digit :: "char \<Rightarrow> bool" where
  "is_digit c \<longleftrightarrow> isdigit (of_char c)"

definition decimal :: "string \<Rightarrow> int" where
  "decimal s = foldl (\<lambda>a c. a * 10 + (of_char c - 48)) 0 s"

text \<open>The pieces of a number: an optional sign, a run of digits.\<close>

definition opt_sign :: "string \<Rightarrow> bool \<times> string" where
  "opt_sign r =
     (if r \<noteq> [] \<and> (hd r = CHR ''+'' \<or> hd r = CHR ''-'') then (hd r = CHR ''-'', tl r)
      else (False, r))"

definition span_digits :: "string \<Rightarrow> string \<times> string" where
  "span_digits r = (takeWhile is_digit r, dropWhile is_digit r)"

text \<open>
  \<open>operator>>(unsigned int&)\<close>: an optional sign and decimal digits. Without a digit
  the value 0 is stored and \<open>failbit\<close> set; a value that does not fit gives the largest
  value and \<open>failbit\<close>; a minus sign negates modulo \<open>2^32\<close>.
\<close>

definition get_unsigned :: "istream \<Rightarrow> 32 word option \<times> istream" where
  "get_unsigned s =
     (case sentry s of
        (False, s1) \<Rightarrow> (None, s1)
      | (True, s1) \<Rightarrow>
          (case opt_sign (unread s1) of (neg, r1) \<Rightarrow>
           case span_digits r1 of (ds, r2) \<Rightarrow>
             let s2 = s1\<lparr>unread := r2, eofbit := (r2 = [])\<rparr>
             in if ds = [] then (Some 0, s2\<lparr>failbit := True\<rparr>)
                else if decimal ds > 4294967295 then (Some (- 1), s2\<lparr>failbit := True\<rparr>)
                else (Some (if neg then - of_int (decimal ds) else of_int (decimal ds)), s2)))"

text \<open>
  \<open>operator>>(double&)\<close>: an optional sign, digits with at most one decimal point, and
  after at least one digit an optional exponent (\<open>e\<close> or \<open>E\<close>, optional sign, digits).
  The characters are taken as far as they fit this shape; the value is stored when they
  contain a digit before the exponent and, if there is an exponent, a digit in it, and
  otherwise 0 is stored and \<open>failbit\<close> set.
\<close>

definition opt_fraction :: "string \<Rightarrow> string \<times> string" where
  "opt_fraction r = (if r \<noteq> [] \<and> hd r = CHR ''.'' then span_digits (tl r) else ([], r))"

definition opt_exponent :: "bool \<Rightarrow> string \<Rightarrow> (bool \<times> string) option \<times> string" where
  "opt_exponent mantissa r =
     (if mantissa \<and> r \<noteq> [] \<and> (hd r = CHR ''e'' \<or> hd r = CHR ''E'') then
        (case opt_sign (tl r) of (neg, r1) \<Rightarrow>
         case span_digits r1 of (ds, r2) \<Rightarrow> (Some (neg, ds), r2))
      else (None, r))"

definition get_double :: "istream \<Rightarrow> rat option \<times> istream" where
  "get_double s =
     (case sentry s of
        (False, s1) \<Rightarrow> (None, s1)
      | (True, s1) \<Rightarrow>
          (case opt_sign (unread s1) of (neg, r1) \<Rightarrow>
           case span_digits r1 of (wdigits, r2) \<Rightarrow>
           case opt_fraction r2 of (fdigits, r3) \<Rightarrow>
           case opt_exponent (wdigits @ fdigits \<noteq> []) r3 of (ex, r4) \<Rightarrow>
             let s2 = s1\<lparr>unread := r4, eofbit := (r4 = [])\<rparr>;
                 mantissa = of_int (decimal (wdigits @ fdigits)) / 10 ^ length fdigits
             in if wdigits @ fdigits = [] then (Some 0, s2\<lparr>failbit := True\<rparr>)
                else
                  (case ex of
                     None \<Rightarrow> (Some (if neg then - mantissa else mantissa), s2)
                   | Some (eneg, eds) \<Rightarrow>
                       if eds = [] then (Some 0, s2\<lparr>failbit := True\<rparr>)
                       else
                         let mag = mantissa *
                               (if eneg then 10 powi (- decimal eds) else 10 powi decimal eds)
                         in (Some (if neg then - mag else mag), s2))))"

text \<open>The nine extractions of one pass of the loop and the assignment of \<open>nameLength\<close>.\<close>

definition store :: "'a option \<Rightarrow> ('a \<Rightarrow> Account \<Rightarrow> Account) \<Rightarrow> Account \<Rightarrow> Account" where
  "store v upd p = (case v of None \<Rightarrow> p | Some x \<Rightarrow> upd x p)"

definition read_account :: "Account \<Rightarrow> istream \<Rightarrow> Account \<times> istream" where
  "read_account person s0 =
     (let (v1, s1) = get_string s0; p1 = store v1 (\<lambda>x p. p\<lparr>last_name := x\<rparr>) person;
          (v2, s2) = get_string s1; p2 = store v2 (\<lambda>x p. p\<lparr>first_name := x\<rparr>) p1;
          (v3, s3) = get_char s2; p3 = store v3 (\<lambda>x p. p\<lparr>middle := x\<rparr>) p2;
          (v4, s4) = get_unsigned s3; p4 = store v4 (\<lambda>x p. p\<lparr>social := x\<rparr>) p3;
          (v5, s5) = get_unsigned s4; p5 = store v5 (\<lambda>x p. p\<lparr>area := x\<rparr>) p4;
          (v6, s6) = get_unsigned s5; p6 = store v6 (\<lambda>x p. p\<lparr>phone := x\<rparr>) p5;
          (v7, s7) = get_double s6; p7 = store v7 (\<lambda>x p. p\<lparr>balance := x\<rparr>) p6;
          (v8, s8) = get_string s7; p8 = store v8 (\<lambda>x p. p\<lparr>number := x\<rparr>) p7;
          (v9, s9) = get_string s8; p9 = store v9 (\<lambda>x p. p\<lparr>password := x\<rparr>) p8
      in (p9\<lparr>nameLength := of_nat (length (first_name p9) + length (last_name p9) + 4)\<rparr>, s9))"

text \<open>
  What \<open>loadDatabase\<close> does: it returns \<open>nullptr\<close> when the file cannot be opened, it
  returns with the accounts read, or it never leaves its loop. The last happens when
  an extraction fails before the end of the file: \<open>failbit\<close> stops every later
  extraction, \<open>eofbit\<close> is never set, and each pass appends one more account.
\<close>

datatype loaded = Not_Opened | Loaded "Account list" | Never_Returns

text \<open>
  The loop of \<open>loadDatabase\<close> (lines 1343 to 1357). \<open>person\<close> is declared without an
  initial value in each pass; \<open>junk\<close> stands for what it holds before the extractions.
  The loop is entered again only when no extraction has failed, and then the pass has
  read at least the first word: the unread text gets shorter.
\<close>

function load_loop :: "Account \<Rightarrow> istream \<Rightarrow> Account list \<Rightarrow> loaded" where
  "load_loop junk s people =
     (if eofbit s then Loaded people
      else
        case read_account junk s of (person, s1) \<Rightarrow>
          if eofbit s1 then Loaded people
          else if failbit s1 then Never_Returns
          else load_loop junk s1 (people @ [person]))"
  by pat_completeness auto
termination
proof (relation "measure (\<lambda>(junk, s, people). length (unread s))")
  show "wf (measure (\<lambda>(junk :: Account, s, people :: Account list). length (unread s)))" by simp
next
  fix junk s and people :: "Account list" and x y
  assume "(x, y) = read_account junk s" and nofail: "\<not> failbit y"
  then have y: "snd (read_account junk s) = y" by (metis snd_conv)
  have sentry_length: "length (unread (snd (sentry s))) \<le> length (unread s)" for s
    by (simp add: sentry_def Let_def length_dropWhile_le)
  have sentry_ok: "unread (snd (sentry s)) \<noteq> [] \<and> \<not> isspace (hd (unread (snd (sentry s))))"
    if "fst (sentry s)" for s
    using that by (auto simp: sentry_def Let_def hd_dropWhile split: if_splits)
  have sentry_not_ok: "failbit (snd (sentry s))" if "\<not> fst (sentry s)" for s
    using that by (simp add: sentry_def Let_def split: if_splits)
  have sentry_fail: "failbit (snd (sentry s)) \<and> \<not> fst (sentry s)" if "failbit s" for s
    using that by (simp add: sentry_def)
  have get_string_shorter: "length (unread (snd (get_string s))) < length (unread s)"
    if nf: "\<not> failbit (snd (get_string s))" for s
  proof -
    obtain ok s1 where s1: "sentry s = (ok, s1)" by (cases "sentry s")
    with nf sentry_not_ok[of s] have ok: "ok" by (cases ok) (auto simp: get_string_def)
    from s1 ok sentry_ok[of s] have ne: "unread s1 \<noteq> []" and ns: "\<not> isspace (hd (unread s1))"
      by simp_all
    from ne ns have "length (dropWhile (\<lambda>c. \<not> isspace c) (unread s1)) < length (unread s1)"
      by (cases "unread s1") (simp_all add: le_imp_less_Suc length_dropWhile_le)
    moreover from s1 sentry_length[of s] have "length (unread s1) \<le> length (unread s)" by simp
    ultimately show ?thesis using s1 ok by (simp add: get_string_def Let_def)
  qed
  have get_string_length: "length (unread (snd (get_string s))) \<le> length (unread s)" for s
  proof -
    obtain ok s1 where s1: "sentry s = (ok, s1)" by (cases "sentry s")
    from s1 sentry_length[of s] have "length (unread s1) \<le> length (unread s)" by simp
    moreover have "length (dropWhile (\<lambda>c. \<not> isspace c) (unread s1)) \<le> length (unread s1)"
      by (rule length_dropWhile_le)
    ultimately show ?thesis using s1 by (cases ok) (simp_all add: get_string_def Let_def)
  qed
  have get_char_length: "length (unread (snd (get_char s))) \<le> length (unread s)" for s
  proof -
    obtain ok s1 where s1: "sentry s = (ok, s1)" by (cases "sentry s")
    from s1 sentry_length[of s] have "length (unread s1) \<le> length (unread s)" by simp
    then show ?thesis using s1 by (cases ok) (simp_all add: get_char_def)
  qed
  have opt_sign_length: "length (snd (opt_sign r)) \<le> length r" for r
    by (simp add: opt_sign_def)
  have span_digits_length: "length (snd (span_digits r)) \<le> length r" for r
    by (simp add: span_digits_def length_dropWhile_le)
  have opt_fraction_length: "length (snd (opt_fraction r)) \<le> length r" for r
    using span_digits_length[of "tl r"] by (auto simp: opt_fraction_def)
  have opt_exponent_length: "length (snd (opt_exponent m r)) \<le> length r" for m r
  proof -
    obtain neg r1 where 1: "opt_sign (tl r) = (neg, r1)" by (cases "opt_sign (tl r)")
    obtain ds r2 where 2: "span_digits r1 = (ds, r2)" by (cases "span_digits r1")
    from 1 opt_sign_length[of "tl r"] have "length r1 \<le> length r" by simp
    moreover from 2 span_digits_length[of r1] have "length r2 \<le> length r1" by simp
    ultimately show ?thesis using 1 2 by (simp add: opt_exponent_def)
  qed
  have get_unsigned_length: "length (unread (snd (get_unsigned s))) \<le> length (unread s)" for s
  proof -
    obtain ok s1 where s1: "sentry s = (ok, s1)" by (cases "sentry s")
    obtain neg r1 where 1: "opt_sign (unread s1) = (neg, r1)" by (cases "opt_sign (unread s1)")
    obtain ds r2 where 2: "span_digits r1 = (ds, r2)" by (cases "span_digits r1")
    from s1 sentry_length[of s] have "length (unread s1) \<le> length (unread s)" by simp
    moreover from 1 opt_sign_length[of "unread s1"] have "length r1 \<le> length (unread s1)"
      by simp
    moreover from 2 span_digits_length[of r1] have "length r2 \<le> length r1" by simp
    ultimately show ?thesis using s1 1 2
      by (cases ok) (simp_all add: get_unsigned_def Let_def)
  qed
  have get_double_length: "length (unread (snd (get_double s))) \<le> length (unread s)" for s
  proof -
    obtain ok s1 where s1: "sentry s = (ok, s1)" by (cases "sentry s")
    obtain neg r1 where 1: "opt_sign (unread s1) = (neg, r1)" by (cases "opt_sign (unread s1)")
    obtain wdigits r2 where 2: "span_digits r1 = (wdigits, r2)" by (cases "span_digits r1")
    obtain fdigits r3 where 3: "opt_fraction r2 = (fdigits, r3)" by (cases "opt_fraction r2")
    obtain ex r4 where 4: "opt_exponent (wdigits @ fdigits \<noteq> []) r3 = (ex, r4)"
      by (cases "opt_exponent (wdigits @ fdigits \<noteq> []) r3")
    from s1 sentry_length[of s] have "length (unread s1) \<le> length (unread s)" by simp
    moreover from 1 opt_sign_length[of "unread s1"] have "length r1 \<le> length (unread s1)"
      by simp
    moreover from 2 span_digits_length[of r1] have "length r2 \<le> length r1" by simp
    moreover from 3 opt_fraction_length[of r2] have "length r3 \<le> length r2" by simp
    moreover from 4 opt_exponent_length[of "wdigits @ fdigits \<noteq> []" r3]
    have "length r4 \<le> length r3" by simp
    ultimately have l: "length r4 \<le> length (unread s)" "length (unread s1) \<le> length (unread s)"
      by simp_all
    show ?thesis
    proof (cases ok)
      case False
      with s1 l show ?thesis by (simp add: get_double_def)
    next
      case True
      with s1 1 2 3 4 l(1) show ?thesis
        by (simp add: get_double_def Let_def split: option.split prod.split)
    qed
  qed
  have get_string_fail: "failbit (snd (get_string s))" if "failbit s" for s
    using sentry_fail[OF that] by (cases "sentry s") (simp add: get_string_def)
  have get_char_fail: "failbit (snd (get_char s))" if "failbit s" for s
    using sentry_fail[OF that] by (cases "sentry s") (simp add: get_char_def)
  have get_unsigned_fail: "failbit (snd (get_unsigned s))" if "failbit s" for s
    using sentry_fail[OF that] by (cases "sentry s") (simp add: get_unsigned_def)
  have get_double_fail: "failbit (snd (get_double s))" if "failbit s" for s
    using sentry_fail[OF that] by (cases "sentry s") (simp add: get_double_def)
  obtain v1 s1 where 1: "get_string s = (v1, s1)" by (cases "get_string s")
  obtain v2 s2 where 2: "get_string s1 = (v2, s2)" by (cases "get_string s1")
  obtain v3 s3 where 3: "get_char s2 = (v3, s3)" by (cases "get_char s2")
  obtain v4 s4 where 4: "get_unsigned s3 = (v4, s4)" by (cases "get_unsigned s3")
  obtain v5 s5 where 5: "get_unsigned s4 = (v5, s5)" by (cases "get_unsigned s4")
  obtain v6 s6 where 6: "get_unsigned s5 = (v6, s6)" by (cases "get_unsigned s5")
  obtain v7 s7 where 7: "get_double s6 = (v7, s7)" by (cases "get_double s6")
  obtain v8 s8 where 8: "get_string s7 = (v8, s8)" by (cases "get_string s7")
  obtain v9 s9 where 9: "get_string s8 = (v9, s9)" by (cases "get_string s8")
  have "snd (read_account junk s) = s9"
    by (simp add: read_account_def 1 2 3 4 5 6 7 8 9 Let_def)
  with y have r: "y = s9" by simp
  with nofail have "\<not> failbit s9" by simp
  with 9 get_string_fail[of s8] have "\<not> failbit s8" by auto
  with 8 get_string_fail[of s7] have "\<not> failbit s7" by auto
  with 7 get_double_fail[of s6] have "\<not> failbit s6" by auto
  with 6 get_unsigned_fail[of s5] have "\<not> failbit s5" by auto
  with 5 get_unsigned_fail[of s4] have "\<not> failbit s4" by auto
  with 4 get_unsigned_fail[of s3] have "\<not> failbit s3" by auto
  with 3 get_char_fail[of s2] have "\<not> failbit s2" by auto
  with 2 get_string_fail[of s1] have "\<not> failbit s1" by auto
  with 1 get_string_shorter[of s] have "length (unread s1) < length (unread s)" by simp
  moreover from 2 get_string_length[of s1] have "length (unread s2) \<le> length (unread s1)" by simp
  moreover from 3 get_char_length[of s2] have "length (unread s3) \<le> length (unread s2)" by simp
  moreover from 4 get_unsigned_length[of s3] have "length (unread s4) \<le> length (unread s3)"
    by simp
  moreover from 5 get_unsigned_length[of s4] have "length (unread s5) \<le> length (unread s4)"
    by simp
  moreover from 6 get_unsigned_length[of s5] have "length (unread s6) \<le> length (unread s5)"
    by simp
  moreover from 7 get_double_length[of s6] have "length (unread s7) \<le> length (unread s6)" by simp
  moreover from 8 get_string_length[of s7] have "length (unread s8) \<le> length (unread s7)" by simp
  moreover from 9 get_string_length[of s8] have "length (unread s9) \<le> length (unread s8)" by simp
  ultimately have "length (unread y) < length (unread s)" using r by simp
  then show "((junk, y, people @ [x]), (junk, s, people))
      \<in> measure (\<lambda>(junk, s, people). length (unread s))" by simp
qed

declare load_loop.simps [simp del]

text \<open>
  \<open>loadDatabase(people)\<close> on a vector that is empty, as in \<open>main\<close>. The file is given
  by its contents, or \<open>None\<close> when it cannot be opened.
\<close>

definition loadDatabase :: "Account \<Rightarrow> string option \<Rightarrow> loaded" where
  "loadDatabase junk file =
     (case file of
        None \<Rightarrow> Not_Opened
      | Some contents \<Rightarrow> load_loop junk \<lparr>unread = contents, eofbit = False, failbit = False\<rparr> [])"

section \<open>Results on the main menu\<close>

text \<open>
  Claim C4. After any sequence of MoveUp, MoveDown and Resize events on a non-empty
  store, \<open>windowPos + cursorPos\<close> is a valid index. The code does not keep this:
  with ten accounts on a terminal of 46 rows, one KEY_UP selects the last record
  (\<open>cursorPos = 9\<close>, \<open>windowPos = 0\<close>); when the terminal shrinks to 11 rows (five list
  rows) line 115 moves \<open>windowPos\<close> to 5 and leaves \<open>cursorPos\<close> at 9, so the selected
  index is 14 in a store of 10.
\<close>

theorem C4_shrink_selects_past_end:
  "menu_run 10 [(46, KEY_UP)] = \<lparr>cursorPos = 9, windowPos = 0\<rparr> \<and>
   menu_run 10 [(46, KEY_UP), (11, KEY_RESIZE)] = \<lparr>cursorPos = 9, windowPos = 5\<rparr> \<and>
   selected (menu_run 10 [(46, KEY_UP), (11, KEY_RESIZE)]) = 14"
  by code_simp

text \<open>
  Claim C8. For all sequences of MoveUp and MoveDown on a store of \<open>N \<ge> 1\<close> records
  the selected index stays below \<open>N\<close>, and \<open>N\<close> times MoveDown from index 0 returns to
  index 0. On a terminal of exactly 6 rows \<open>numRows\<close> is 0, the test
  \<open>cursorPos >= numRows\<close> of line 115 holds in every pass and \<open>windowPos\<close> grows: with
  three accounts, KEY_DOWN then KEY_UP selects index 3, and three times KEY_DOWN ends
  on index 2.
\<close>

theorem C8_six_rows_leave_range:
  "selected (menu_run 3 [(6, KEY_DOWN), (6, KEY_UP)]) = 3 \<and>
   selected (menu_run 3 (replicate 3 (6, KEY_DOWN))) = 2"
  by code_simp

subsection \<open>A terminal of constant height\<close>

lemma unat_up: "unat (ucast (x :: 32 word) :: 64 word) = unat x"
  by (simp add: unsigned_ucast_eq take_bit_nat_eq_self unsigned_less[THEN less_trans])

lemma unat_down: "unat (x :: 64 word) < 2 ^ 32 \<Longrightarrow> unat (ucast x :: 32 word) = unat x"
  by (simp add: unsigned_ucast_eq take_bit_nat_eq_self)

lemma unat32_less: "unat (x :: 32 word) < 4294967296"
  using unsigned_less[of x, where 'a = nat] by simp

lemma numRows_of_bounds:
  assumes "h \<noteq> 6"
  shows "1 \<le> unat (numRows_of h)" "unat (numRows_of h) \<le> 40"
proof -
  have "h - 6 \<noteq> 0" using assms by simp
  then have "0 < unat (h - 6)" by (simp add: unat_gt_0)
  then show "1 \<le> unat (numRows_of h)" by (simp add: numRows_of_def)
  show "unat (numRows_of h) \<le> 40"
    by (simp add: numRows_of_def word_less_nat_alt)
qed

lemma fit_window_id:
  assumes "menu_ok sz numRows m"
  shows "fit_window sz numRows m = m"
proof -
  from assms have c: "unat (cursorPos m) < unat numRows"
    and w0: "unat sz < unat numRows \<Longrightarrow> windowPos m = 0"
    and wl: "unat numRows \<le> unat sz \<Longrightarrow> unat (windowPos m) + unat numRows \<le> unat sz"
    by (simp_all add: menu_ok_def)
  have c3: "\<not> numRows \<le> cursorPos m" using c by (simp add: word_le_nat_alt)
  show ?thesis
  proof (cases "sz < ucast numRows")
    case True
    then have "unat sz < unat numRows" by (simp add: word_less_nat_alt unat_up)
    with w0 have "windowPos m = 0" by simp
    with True c3 show ?thesis by (simp add: fit_window_def)
  next
    case False
    then have le: "unat numRows \<le> unat sz" by (simp add: word_less_nat_alt unat_up)
    then have "ucast numRows \<le> sz" by (simp add: word_le_nat_alt unat_up)
    then have "unat (sz - ucast numRows) = unat sz - unat numRows"
      by (simp add: unat_sub unat_up)
    with wl[OF le] have "\<not> sz - ucast numRows < ucast (windowPos m)"
      by (simp add: word_less_nat_alt unat_up)
    with False c3 show ?thesis by (simp add: fit_window_def)
  qed
qed


lemma menu_ok_size: "menu_ok sz numRows m \<Longrightarrow> 1 \<le> unat sz \<and> 1 \<le> unat numRows"
  by (auto simp: menu_ok_def)

lemma key_up_ok:
  assumes ok: "menu_ok sz numRows m" and small: "unat sz < 2 ^ 32"
  shows "menu_ok sz numRows (key_up sz numRows m)"
proof -
  from ok have c: "unat (cursorPos m) < unat numRows"
    and cw: "unat (cursorPos m) + unat (windowPos m) < unat sz"
    and w0: "unat sz < unat numRows \<longrightarrow> windowPos m = 0"
    and wl: "unat numRows \<le> unat sz \<longrightarrow> unat (windowPos m) + unat numRows \<le> unat sz"
    by (simp_all add: menu_ok_def)
  from cw have sz0: "sz \<noteq> 0" by (auto simp: unat_eq_zero)
  then have sz1: "unat (sz - 1) = unat sz - 1" by (rule unat_minus_one)
  from c have r0: "numRows \<noteq> 0" by (auto simp: unat_eq_zero)
  then have r1: "unat (numRows - 1) = unat numRows - 1" by (rule unat_minus_one)
  show ?thesis
  proof (cases "cursorPos m \<noteq> 0")
    case True
    then have "unat (cursorPos m - 1) = unat (cursorPos m) - 1" by (rule unat_minus_one)
    with True c cw w0 wl show ?thesis by (simp add: key_up_def menu_ok_def; arith)
  next
    case c0: False
    show ?thesis
    proof (cases "sz \<le> ucast numRows")
      case True
      then have le: "unat sz \<le> unat numRows" by (simp add: word_le_nat_alt unat_up)
      have "unat (ucast (sz - 1) :: 32 word) = unat sz - 1"
        using small sz1 by (simp add: unat_down)
      moreover from le w0 wl have "windowPos m = 0"
        by (cases "unat sz < unat numRows") (simp_all add: unat_eq_zero)
      ultimately show ?thesis using c0 True le cw by (simp add: key_up_def menu_ok_def; arith)
    next
      case False
      then have gt: "unat numRows < unat sz" by (simp add: word_le_nat_alt unat_up)
      show ?thesis
      proof (cases "windowPos m \<noteq> 0")
        case True
        then have "unat (windowPos m - 1) = unat (windowPos m) - 1" by (rule unat_minus_one)
        with True c0 False c cw wl gt show ?thesis by (simp add: key_up_def menu_ok_def; arith)
      next
        case w00: False
        have "ucast (numRows - 1) \<le> sz" using gt r1 by (simp add: word_le_nat_alt unat_up)
        then have "unat (sz - ucast (numRows - 1)) = unat sz - (unat numRows - 1)"
          using r1 by (simp add: unat_sub unat_up)
        moreover from this gt have "sz - ucast (numRows - 1) \<noteq> 0" by (auto simp: unat_eq_zero)
        then have "unat (sz - ucast (numRows - 1) - 1) = unat (sz - ucast (numRows - 1)) - 1"
          by (rule unat_minus_one)
        ultimately have "unat (sz - ucast (numRows - 1) - 1) = unat sz - unat numRows"
          using gt c by arith
        then have "unat (ucast (sz - ucast (numRows - 1) - 1) :: 32 word) = unat sz - unat numRows"
          using small by (simp add: unat_down)
        with w00 c0 False r1 c gt show ?thesis by (simp add: key_up_def menu_ok_def; arith)
      qed
    qed
  qed
qed

lemma last_row:
  assumes "h \<noteq> 6" "unat c < unat (numRows_of h)"
  shows "(c = 40 - 1 \<or> c = h - 7) \<longleftrightarrow> unat c + 1 = unat (numRows_of h)"
proof (cases "h - 6 > 40")
  case True
  then have r: "numRows_of h = 40" by (simp add: numRows_of_def)
  from True have "40 < unat (h - 6)" by (simp add: word_less_nat_alt)
  moreover have n0: "h - 6 \<noteq> 0" using assms(1) by simp
  have "unat (h - 7) = unat (h - 6) - 1" using unat_minus_one[OF n0] by simp
  ultimately have "40 \<le> unat (h - 7)" by simp
  with assms(2) r have "c \<noteq> h - 7" by auto
  moreover have "c = 39 \<longleftrightarrow> unat c = 39" by (simp add: word_unat_eq_iff)
  ultimately show ?thesis using r by auto
next
  case False
  then have r: "numRows_of h = h - 6" by (simp add: numRows_of_def)
  from False have le: "unat (h - 6) \<le> 40" by (simp add: word_less_nat_alt)
  have n0: "h - 6 \<noteq> 0" using assms(1) by simp
  have u: "unat (h - 7) = unat (h - 6) - 1" using unat_minus_one[OF n0] by simp
  have a: "c = h - 7 \<longleftrightarrow> unat c = unat (h - 7)" by (simp add: word_unat_eq_iff)
  have b: "c = 39 \<longleftrightarrow> unat c = 39" by (simp add: word_unat_eq_iff)
  from n0 have "0 < unat (h - 6)" by (simp add: unat_gt_0)
  with a b u le assms(2) r show ?thesis by auto
qed


lemma selected_ok:
  assumes "menu_ok sz numRows m" "unat sz < 2 ^ 32"
  shows "selected m = unat (cursorPos m) + unat (windowPos m)" "selected m < unat sz"
proof -
  from assms have cw: "unat (cursorPos m) + unat (windowPos m) < 2 ^ 32"
    and lt: "unat (cursorPos m) + unat (windowPos m) < unat sz"
    by (simp_all add: menu_ok_def)
  from cw have "unat (windowPos m + cursorPos m) = unat (windowPos m) + unat (cursorPos m)"
    by (simp add: unat_add_lem[THEN iffD1])
  then show "selected m = unat (cursorPos m) + unat (windowPos m)" by (simp add: selected_def)
  with lt show "selected m < unat sz" by simp
qed

lemma key_down_ok:
  assumes ok: "menu_ok sz (numRows_of h) m" and small: "unat sz < 2 ^ 32" and h: "h \<noteq> 6"
  shows "menu_ok sz (numRows_of h) (key_down sz h m)"
    and "selected (key_down sz h m) = (if selected m + 1 = unat sz then 0 else selected m + 1)"
proof -
  let ?R = "numRows_of h"
  from ok have c: "unat (cursorPos m) < unat ?R"
    and cw: "unat (cursorPos m) + unat (windowPos m) < unat sz"
    and w0: "unat sz < unat ?R \<longrightarrow> windowPos m = 0"
    and wl: "unat ?R \<le> unat sz \<longrightarrow> unat (windowPos m) + unat ?R \<le> unat sz"
    by (simp_all add: menu_ok_def)
  note sel = selected_ok(1)[OF ok small]
  from cw have sz0: "sz \<noteq> 0" by (auto simp: unat_eq_zero)
  then have sz1: "unat (sz - 1) = unat sz - 1" by (rule unat_minus_one)
  from cw small have "unat (cursorPos m) + unat (windowPos m) < 2 ^ 32" by simp
  then have sum: "unat (cursorPos m + windowPos m) = unat (cursorPos m) + unat (windowPos m)"
    by (simp add: unat_add_lem[THEN iffD1])
  have cond1: "sz - 1 \<le> ucast (cursorPos m + windowPos m) \<longleftrightarrow>
      unat (cursorPos m) + unat (windowPos m) + 1 = unat sz"
    using sz1 sum cw by (simp add: word_le_nat_alt unat_up; arith)
  note cond2 = last_row[OF h c]
  have both: "menu_ok sz ?R (key_down sz h m) \<and>
      selected (key_down sz h m) = (if selected m + 1 = unat sz then 0 else selected m + 1)"
  proof (cases "unat (cursorPos m) + unat (windowPos m) + 1 = unat sz")
    case True
    with cond1 have k: "key_down sz h m = m\<lparr>cursorPos := 0, windowPos := 0\<rparr>"
      by (simp add: key_down_def)
    from c cw have "menu_ok sz ?R (m\<lparr>cursorPos := 0, windowPos := 0\<rparr>)"
      by (simp add: menu_ok_def; arith)
    with k True sel show ?thesis by (simp add: selected_def)
  next
    case False
    with cw have less: "unat (cursorPos m) + unat (windowPos m) + 1 < unat sz" by simp
    show ?thesis
    proof (cases "unat (cursorPos m) + 1 = unat ?R")
      case True
      with cond1 cond2 False have k: "key_down sz h m = m\<lparr>windowPos := windowPos m + 1\<rparr>"
        by (simp add: key_down_def)
      from less small have "unat (windowPos m) + unat (1 :: 32 word) < 2 ^ 32" by simp
      then have w1: "unat (windowPos m + 1) = unat (windowPos m) + 1"
        by (simp add: unat_add_lem[THEN iffD1])
      have nz: "windowPos m = 0 \<Longrightarrow> unat (windowPos m) = 0" by simp
      have okk: "menu_ok sz ?R (m\<lparr>windowPos := windowPos m + 1\<rparr>)"
        unfolding menu_ok_def using c less w0 wl True w1 nz
        by (simp; arith)
      from selected_ok(1)[OF okk small] w1 sel False k show ?thesis
        using okk by simp
    next
      case nl: False
      with cond1 cond2 False have k: "key_down sz h m = m\<lparr>cursorPos := cursorPos m + 1\<rparr>"
        by (simp add: key_down_def)
      from c have "unat (cursorPos m) + unat (1 :: 32 word) < 2 ^ 32"
        using unat32_less[of ?R] by simp
      then have c1: "unat (cursorPos m + 1) = unat (cursorPos m) + 1"
        by (simp add: unat_add_lem[THEN iffD1])
      have okk: "menu_ok sz ?R (m\<lparr>cursorPos := cursorPos m + 1\<rparr>)"
        unfolding menu_ok_def using c less w0 wl nl c1
        by (simp; arith)
      from selected_ok(1)[OF okk small] c1 sel False k show ?thesis
        using okk by simp
    qed
  qed
  from both show "menu_ok sz (numRows_of h) (key_down sz h m)" ..
  from both show "selected (key_down sz h m) =
      (if selected m + 1 = unat sz then 0 else selected m + 1)" ..
qed


lemma menu_ok_initial:
  assumes "1 \<le> unat sz" "h \<noteq> 6"
  shows "menu_ok sz (numRows_of h) \<lparr>cursorPos = 0, windowPos = 0\<rparr>"
  using assms numRows_of_bounds(1)[OF assms(2)] by (simp add: menu_ok_def)

lemma menu_pass_ok:
  assumes "menu_ok sz (numRows_of h) m" "unat sz < 2 ^ 32" "h \<noteq> 6"
  shows "menu_ok sz (numRows_of h) (menu_pass sz m (h, k))"
  using assms fit_window_id[OF assms(1)] key_up_ok[OF assms(1,2)] key_down_ok(1)[OF assms]
  by (simp add: menu_pass_def Let_def)

lemma menu_passes_ok:
  assumes "menu_ok sz (numRows_of h) m" "unat sz < 2 ^ 32" "h \<noteq> 6"
  shows "menu_ok sz (numRows_of h) (foldl (menu_pass sz) m (map (Pair h) ks))"
  using assms(1)
proof (induction ks arbitrary: m)
  case Nil
  then show ?case by simp
next
  case (Cons k ks)
  from menu_pass_ok[OF Cons.prems assms(2,3)] Cons.IH show ?case by simp
qed

text \<open>
  On a terminal whose height stays the same and is not 6 rows, and with fewer than
  \<open>2^32\<close> accounts, the selected index stays below the number of accounts whatever keys
  are pressed among those that \<open>menu_pass\<close> covers, and KEY_DOWN steps through the
  indices cyclically.
\<close>

lemma menu_moves_stay_in_range:
  assumes "1 \<le> unat sz" "unat sz < 2 ^ 32" "h \<noteq> 6"
  shows "selected (menu_run sz (map (Pair h) ks)) < unat sz"
  unfolding menu_run_def
  by (rule selected_ok(2)[OF menu_passes_ok[OF menu_ok_initial[OF assms(1,3)] assms(2,3)] assms(2)])

lemma menu_down_steps:
  assumes "1 \<le> unat sz" "unat sz < 2 ^ 32" "h \<noteq> 6"
  shows "selected (menu_run sz (replicate n (h, KEY_DOWN))) = n mod unat sz"
proof (induction n)
  case 0
  show ?case by (simp add: menu_run_def selected_def)
next
  case (Suc n)
  let ?m = "menu_run sz (replicate n (h, KEY_DOWN))"
  have "replicate n (h, KEY_DOWN) = map (Pair h) (replicate n KEY_DOWN)" by simp
  then have ok: "menu_ok sz (numRows_of h) ?m"
    unfolding menu_run_def
    using menu_passes_ok[OF menu_ok_initial[OF assms(1,3)] assms(2,3)] by metis
  have "replicate (Suc n) (h, KEY_DOWN) = replicate n (h, KEY_DOWN) @ [(h, KEY_DOWN)]"
    by (simp add: replicate_append_same)
  then have "menu_run sz (replicate (Suc n) (h, KEY_DOWN)) = menu_pass sz ?m (h, KEY_DOWN)"
    unfolding menu_run_def by (simp only: foldl_append foldl.simps)
  also have "\<dots> = key_down sz h ?m"
    using fit_window_id[OF ok] by (simp add: menu_pass_def Let_def key_defs)
  finally have "selected (menu_run sz (replicate (Suc n) (h, KEY_DOWN))) =
      (if selected ?m + 1 = unat sz then 0 else selected ?m + 1)"
    using key_down_ok(2)[OF ok assms(2,3)] by simp
  with Suc.IH assms(1) show ?case
    by (simp add: mod_Suc)
qed

lemma menu_down_cycle:
  assumes "1 \<le> unat sz" "unat sz < 2 ^ 32" "h \<noteq> 6"
  shows "selected (menu_run sz (replicate (unat sz) (h, KEY_DOWN))) = 0"
  using menu_down_steps[OF assms, of "unat sz"] by simp

section \<open>Results on deposit, withdraw and transferAmmount\<close>

lemma obc_refl: "only_balance_changed people people S"
  by (simp add: only_balance_changed_def)

lemma obc_update:
  assumes "i \<in> S"
  shows "only_balance_changed people (people[i := (people ! i)\<lparr>balance := a\<rparr>]) S"
  unfolding only_balance_changed_def
proof (intro conjI allI impI)
  show "length (people[i := (people ! i)\<lparr>balance := a\<rparr>]) = length people" by simp
next
  fix k assume "k < length people"
  then show "people[i := (people ! i)\<lparr>balance := a\<rparr>] ! k =
      (people ! k)\<lparr>balance := balance (people[i := (people ! i)\<lparr>balance := a\<rparr>] ! k)\<rparr>"
    by (cases "k = i") simp_all
next
  fix k assume "k < length people" "k \<notin> S"
  with assms have "k \<noteq> i" by blast
  then show "people[i := (people ! i)\<lparr>balance := a\<rparr>] ! k = people ! k" by simp
qed

lemma obc_trans:
  assumes "only_balance_changed p q S" "only_balance_changed q r S"
  shows "only_balance_changed p r S"
  unfolding only_balance_changed_def
proof (intro conjI allI impI)
  show "length r = length p" using assms by (simp add: only_balance_changed_def)
next
  fix k assume k: "k < length p"
  then have 1: "q ! k = (p ! k)\<lparr>balance := balance (q ! k)\<rparr>"
    and 2: "r ! k = (q ! k)\<lparr>balance := balance (r ! k)\<rparr>"
    using assms by (simp_all add: only_balance_changed_def)
  have "r ! k = ((p ! k)\<lparr>balance := balance (q ! k)\<rparr>)\<lparr>balance := balance (r ! k)\<rparr>"
    using 1 2 by simp
  then show "r ! k = (p ! k)\<lparr>balance := balance (r ! k)\<rparr>" by simp
next
  fix k assume "k < length p" "k \<notin> S"
  then show "r ! k = p ! k" using assms by (simp add: only_balance_changed_def)
qed

lemma obc_transfer_commit:
  "only_balance_changed people (transfer_commit people from to a) {from, to}"
  unfolding transfer_commit_def Let_def
  by (rule obc_trans [OF obc_update obc_update]) simp_all

lemma deposit_loop_Return:
  "deposit_loop people person e ks = Return p' \<Longrightarrow>
   p' = people \<or> (\<exists>a. p' = people[person := (people ! person)\<lparr>balance := a\<rparr>])"
proof (induction "length ks" arbitrary: e ks rule: less_induct)
  case less
  show ?case
  proof (cases ks)
    case Nil
    with less.prems show ?thesis by simp
  next
    case (Cons inp r)
    have IH: "p' = people \<or> (\<exists>a. p' = people[person := (people ! person)\<lparr>balance := a\<rparr>])"
      if "deposit_loop people person e' ks' = Return p'" "length ks' \<le> length r" for e' ks'
      using less.hyps[of ks' e'] that Cons by simp
    from less.prems Cons show ?thesis
      by (simp split: if_splits list.splits) (blast | (erule IH, simp))+
  qed
qed

lemma withdraw_loop_Return:
  "withdraw_loop people person e ks = Return p' \<Longrightarrow>
   p' = people \<or> (\<exists>a. p' = people[person := (people ! person)\<lparr>balance := a\<rparr>])"
proof (induction "length ks" arbitrary: e ks rule: less_induct)
  case less
  show ?case
  proof (cases ks)
    case Nil
    with less.prems show ?thesis by simp
  next
    case (Cons inp r)
    have IH: "p' = people \<or> (\<exists>a. p' = people[person := (people ! person)\<lparr>balance := a\<rparr>])"
      if "withdraw_loop people person e' ks' = Return p'" "length ks' \<le> length r" for e' ks'
      using less.hyps[of ks' e'] that Cons by simp
    from less.prems Cons show ?thesis
      by (simp split: if_splits list.splits) (blast | (erule IH, simp))+
  qed
qed

lemma transferAmmount_loop_Return:
  "transferAmmount_loop people from to e ks = Return p' \<Longrightarrow>
   p' = people \<or> (\<exists>a. p' = transfer_commit people from to a)"
proof (induction "length ks" arbitrary: e ks rule: less_induct)
  case less
  show ?case
  proof (cases ks)
    case Nil
    with less.prems show ?thesis by simp
  next
    case (Cons inp r)
    have IH: "p' = people \<or> (\<exists>a. p' = transfer_commit people from to a)"
      if "transferAmmount_loop people from to e' ks' = Return p'" "length ks' \<le> length r" for e' ks'
      using less.hyps[of ks' e'] that Cons by simp
    from less.prems Cons show ?thesis
      by (simp split: if_splits list.splits) (blast | (erule IH, simp))+
  qed
qed

text \<open>
  Claim C10. A deposit, withdrawal or transfer that returns, committed or cancelled,
  leaves the size and order of the collection, every account not involved and every
  field other than \<open>balance\<close> of the involved accounts as they were, whatever keys were
  pressed.
\<close>

theorem C10_only_balance_changes:
  assumes "person < length people" "from < length people" "to < length people"
  shows "(deposit people person ks = Return p' \<longrightarrow> only_balance_changed people p' {person}) \<and>
         (withdraw people person ks = Return p' \<longrightarrow> only_balance_changed people p' {person}) \<and>
         (transferAmmount people from to ks = Return p' \<longrightarrow>
            only_balance_changed people p' {from, to})"
proof (intro conjI impI)
  assume "deposit people person ks = Return p'"
  then show "only_balance_changed people p' {person}"
    unfolding deposit_def by (auto dest!: deposit_loop_Return intro: obc_refl obc_update)
next
  assume "withdraw people person ks = Return p'"
  then show "only_balance_changed people p' {person}"
    unfolding withdraw_def by (auto dest!: withdraw_loop_Return intro: obc_refl obc_update)
next
  assume "transferAmmount people from to ks = Return p'"
  then show "only_balance_changed people p' {from, to}"
    unfolding transferAmmount_def
    by (auto dest!: transferAmmount_loop_Return intro: obc_refl obc_transfer_commit)
qed

theorem C10_witness:
  "deposit [sample ''A0001'' 100, sample ''B0002'' 5] 0 [53, 48, 10, 10]
     = Return [sample ''A0001'' 150, sample ''B0002'' 5] \<and>
   only_balance_changed [sample ''A0001'' 100, sample ''B0002'' 5]
     [sample ''A0001'' 150, sample ''B0002'' 5] {0} \<and>
   transferAmmount [sample ''A0001'' 150, sample ''B0002'' 5] 0 1 [53, 10, 10]
     = Return [sample ''A0001'' 145, sample ''B0002'' 10] \<and>
   only_balance_changed [sample ''A0001'' 150, sample ''B0002'' 5]
     [sample ''A0001'' 145, sample ''B0002'' 10] {0, 1}"
proof -
  have d: "deposit [sample ''A0001'' 100, sample ''B0002'' 5] 0 [53, 48, 10, 10]
     = Return [sample ''A0001'' 150, sample ''B0002'' 5]"
    by code_simp
  have t: "transferAmmount [sample ''A0001'' 150, sample ''B0002'' 5] 0 1 [53, 10, 10]
     = Return [sample ''A0001'' 145, sample ''B0002'' 10]"
    by code_simp
  have l: "(0::nat) < length [sample ''A0001'' 100, sample ''B0002'' 5]"
    "(0::nat) < length [sample ''A0001'' 150, sample ''B0002'' 5]"
    "(1::nat) < length [sample ''A0001'' 150, sample ''B0002'' 5]" by simp_all
  from C10_only_balance_changes[OF l(1) l(1) l(1), where ks = "[53, 48, 10, 10]"] d
  have 1: "only_balance_changed [sample ''A0001'' 100, sample ''B0002'' 5]
     [sample ''A0001'' 150, sample ''B0002'' 5] {0}" by simp
  from C10_only_balance_changes[OF l(2) l(2) l(3), where ks = "[53, 10, 10]"] t
  have 2: "only_balance_changed [sample ''A0001'' 150, sample ''B0002'' 5]
     [sample ''A0001'' 145, sample ''B0002'' 10] {0, 1}" by simp
  from d t 1 2 show ?thesis by blast
qed


lemma armed_ok_digit: "armed_ok b e \<Longrightarrow> armed_ok b (withdraw_digit b e inp)"
  by (auto simp: armed_ok_def withdraw_digit_def add_digit_def Let_def)

lemma armed_ok_simps:
  "armed_ok b (decimal_point e)" "armed_ok b (backspace e)" "armed_ok b (e\<lparr>confirm := False\<rparr>)"
  "b - newBalance e \<ge> 0 \<Longrightarrow> armed_ok b (e\<lparr>confirm := True\<rparr>)"
  by (auto simp: armed_ok_def decimal_point_def backspace_def Let_def)

lemma withdraw_loop_nonneg:
  assumes "withdraw_loop people person e ks = Return p'"
    and "armed_ok (balance (people ! person)) e"
  shows "p' = people \<or>
    (\<exists>a. p' = people[person := (people ! person)\<lparr>balance := a\<rparr>] \<and> a \<ge> 0)"
  using assms
proof (induction "length ks" arbitrary: e ks rule: less_induct)
  case less
  show ?case
  proof (cases ks)
    case Nil
    with less.prems show ?thesis by simp
  next
    case (Cons inp r)
    have IH: "p' = people \<or>
      (\<exists>a. p' = people[person := (people ! person)\<lparr>balance := a\<rparr>] \<and> a \<ge> 0)"
      if "withdraw_loop people person e' ks' = Return p'" "length ks' \<le> length r"
        "armed_ok (balance (people ! person)) e'" for e' ks'
      using less.hyps[of ks' e'] that Cons by simp
    have commit: "confirm e \<Longrightarrow> 0 \<le> balance (people ! person) - newBalance e"
      using less.prems(2) by (simp add: armed_ok_def)
    from less.prems Cons show ?thesis
      apply (simp split: if_splits list.splits)
      apply ((erule IH, simp, simp add: armed_ok_simps armed_ok_digit) | (use commit in blast))+
      done
  qed
qed

text \<open>
  In \<open>withdraw\<close> a commit never leaves the balance negative: ENTER arms \<open>confirm\<close> only
  when \<open>acc->balance - newBalance >= 0\<close>, and every key that changes the amount clears
  it.
\<close>

lemma withdraw_never_overdraws:
  assumes "withdraw people person ks = Return p'" "person < length people"
  shows "p' = people \<or> balance (p' ! person) \<ge> 0"
  using withdraw_loop_nonneg[of people person entry0 ks p'] assms
  by (auto simp: withdraw_def armed_ok_def entry0_def)


text \<open>
  Claim C1. No balance is negative after a committed withdrawal or transfer, and
  confirming an amount above the balance of the debited account does nothing. This
  holds for \<open>withdraw\<close> (above) and fails for \<open>transferAmmount\<close>, whose ENTER case sets
  \<open>confirm\<close> without the test on \<open>from->balance - newBalance\<close>: on a source balance of 5,
  the keys 9, ENTER arm the confirmation and a second ENTER commits, leaving -4. The
  same keys in \<open>withdraw\<close> leave \<open>confirm\<close> false and the balance untouched.
\<close>

theorem C1_transfer_overdraws:
  "transferAmmount [sample ''A0001'' 5, sample ''B0002'' 0] 0 1 [57, 10]
     = Pending \<lparr>newBalance = 9, place = 0, confirm = True\<rparr> \<and>
   transferAmmount [sample ''A0001'' 5, sample ''B0002'' 0] 0 1 [57, 10, 10]
     = Return [sample ''A0001'' (- 4), sample ''B0002'' 9] \<and>
   withdraw [sample ''A0001'' 5, sample ''B0002'' 0] 0 [57, 10, 10]
     = Pending \<lparr>newBalance = 9, place = 0, confirm = False\<rparr>"
  by code_simp

subsection \<open>The commit of a transfer without rounding\<close>

lemma sum_list_balance_update:
  assumes "i < length people"
  shows "sum_list (map balance (people[i := (people ! i)\<lparr>balance := b\<rparr>])) =
    sum_list (map balance people) + b - balance (people ! i)"
  using assms
proof (induction people arbitrary: i)
  case Nil
  then show ?case by simp
next
  case (Cons p ps)
  then show ?case by (cases i) simp_all
qed

text \<open>
  The commit of \<open>transferAmmount\<close> in the arithmetic of this embedding, where the two
  assignments do not round: between two different accounts the balances become
  \<open>bx - a\<close> and \<open>by + a\<close> and the sum of all balances is the same. When \<open>from\<close> and \<open>to\<close>
  point to the same account (\<open>transferAccount\<close> accepts the number of the source
  account) the two assignments cancel. What the two operations on \<open>double\<close> store, and
  whether the total is kept, depends on their rounding, which is outside this
  embedding.
\<close>

lemma transfer_commit_exact:
  assumes "from < length people" "to < length people" "from \<noteq> to"
  shows "balance (transfer_commit people from to a ! from) = balance (people ! from) - a"
    and "balance (transfer_commit people from to a ! to) = balance (people ! to) + a"
    and "sum_list (map balance (transfer_commit people from to a)) = sum_list (map balance people)"
proof -
  define p1 where "p1 = people[from := (people ! from)\<lparr>balance := balance (people ! from) - a\<rparr>]"
  have c: "transfer_commit people from to a = p1[to := (p1 ! to)\<lparr>balance := balance (p1 ! to) + a\<rparr>]"
    by (simp add: transfer_commit_def Let_def p1_def)
  have l: "to < length p1" and t: "p1 ! to = people ! to"
    and f: "balance (p1 ! from) = balance (people ! from) - a"
    using assms by (simp_all add: p1_def)
  show "balance (transfer_commit people from to a ! from) = balance (people ! from) - a"
    using assms f by (simp add: c)
  show "balance (transfer_commit people from to a ! to) = balance (people ! to) + a"
    using l t by (simp add: c)
  have "sum_list (map balance p1) = sum_list (map balance people) - a"
    unfolding p1_def using assms(1) by (simp add: sum_list_balance_update)
  moreover have "sum_list (map balance (p1[to := (p1 ! to)\<lparr>balance := balance (p1 ! to) + a\<rparr>])) =
      sum_list (map balance p1) + (balance (p1 ! to) + a) - balance (p1 ! to)"
    using l by (rule sum_list_balance_update)
  ultimately show "sum_list (map balance (transfer_commit people from to a)) =
      sum_list (map balance people)"
    by (simp add: c)
qed

lemma transfer_commit_same_account:
  assumes "from < length people"
  shows "transfer_commit people from from a = people"
  using assms by (simp add: transfer_commit_def Let_def list_update_same_conv)

section \<open>Results on the digits of an amount\<close>

lemma numPlaces_loop_ge: "places \<le> numPlaces_loop i places"
proof (induction i places rule: numPlaces_loop.induct)
  case (1 i places)
  show ?case
  proof (cases "i \<ge> 10")
    case True
    with 1 have "places + 1 \<le> numPlaces_loop (i div 10) (places + 1)" by simp
    with True show ?thesis by (subst numPlaces_loop.simps) simp
  next
    case False
    then show ?thesis by (subst numPlaces_loop.simps) simp
  qed
qed

lemma div10_less: "(i::int) div 10 < n \<longleftrightarrow> i < 10 * n"
  by presburger

lemma numPlaces_loop_le_iff:
  "0 \<le> i \<Longrightarrow> numPlaces_loop i places \<le> places + int k \<longleftrightarrow> i < 10 ^ Suc k"
proof (induction k arbitrary: i places)
  case 0
  show ?case
  proof (cases "i \<ge> 10")
    case True
    have "places + 1 \<le> numPlaces_loop (i div 10) (places + 1)" by (rule numPlaces_loop_ge)
    with True show ?thesis by (subst numPlaces_loop.simps) simp
  next
    case False
    then show ?thesis by (subst numPlaces_loop.simps) simp
  qed
next
  case (Suc k)
  show ?case
  proof (cases "i \<ge> 10")
    case True
    then have "0 \<le> i div 10" by simp
    from Suc.IH[OF this, of "places + 1"]
    have "numPlaces_loop (i div 10) (places + 1) \<le> places + 1 + int k \<longleftrightarrow> i < 10 * 10 ^ Suc k"
      by (simp only: div10_less)
    with True show ?thesis by (subst numPlaces_loop.simps) (simp add: add.commute add.left_commute)
  next
    case False
    then have "i < 10" by simp
    also have "(10::int) \<le> 10 ^ Suc (Suc k)" by (rule self_le_power) simp_all
    finally have "i < 10 ^ Suc (Suc k)" .
    with False show ?thesis by (subst numPlaces_loop.simps) simp
  qed
qed

lemma numPlaces_ge_12: "numPlaces i \<ge> 12 \<longleftrightarrow> i \<ge> 10 ^ 11 \<or> i \<le> - (10 ^ 10)"
proof (cases "i < 0")
  case True
  then have "numPlaces_loop (- i) 2 \<le> 2 + int 9 \<longleftrightarrow> - i < 10 ^ Suc 9"
    by (intro numPlaces_loop_le_iff) simp
  with True show ?thesis by (simp add: numPlaces_def) linarith
next
  case False
  then have "numPlaces_loop i 1 \<le> 1 + int 10 \<longleftrightarrow> i < 10 ^ Suc 10"
    by (intro numPlaces_loop_le_iff) simp
  with False show ?thesis by (simp add: numPlaces_def) linarith
qed

lemma numPlaces_to_long_long:
  "numPlaces (to_long_long x) \<ge> 12 \<longleftrightarrow> x \<ge> 10 ^ 11 \<or> x \<le> - (10 ^ 10)"
proof (cases "x < 0")
  case True
  have "\<lceil>x\<rceil> \<le> - (10 ^ 10) \<longleftrightarrow> x \<le> - (10 ^ 10)"
    by (simp add: ceiling_le_iff)
  moreover have "\<not> \<lceil>x\<rceil> \<ge> 10 ^ 11" using True
    by (smt (verit) ceiling_le_zero less_eq_rat_def zero_less_power)
  ultimately show ?thesis using True by (simp add: numPlaces_ge_12 to_long_long_def)
next
  case False
  have "\<lfloor>x\<rfloor> \<ge> 10 ^ 11 \<longleftrightarrow> x \<ge> 10 ^ 11"
    by (simp add: le_floor_iff)
  moreover have "\<not> \<lfloor>x\<rfloor> \<le> - (10 ^ 10)" using False
    by (smt (verit) zero_le_floor not_less zero_less_power)
  ultimately show ?thesis using False by (simp add: numPlaces_ge_12 to_long_long_def)
qed


lemma deposit_digit_whole:
  assumes "48 \<le> inp" "inp \<le> 57"
  shows "deposit_digit bal \<lparr>newBalance = of_int a, place = 0, confirm = False\<rparr> inp =
    (if (inp = 48 \<and> a = 0) \<or> bal + of_int a \<ge> 10 ^ 11 \<or> bal + of_int a \<le> - (10 ^ 10)
     then \<lparr>newBalance = of_int a, place = 0, confirm = False\<rparr>
     else \<lparr>newBalance = of_int (a * 10 + (inp - 48)), place = 0, confirm = False\<rparr>)"
  using numPlaces_to_long_long[of "bal + of_int a"]
  by (simp add: deposit_digit_def add_digit_def pow10_def Let_def)

lemma deposit_loop_digits:
  assumes "\<forall>k \<in> set ks. 48 \<le> k \<and> k \<le> 57"
  shows "deposit_loop people person \<lparr>newBalance = of_int a, place = 0, confirm = False\<rparr> ks =
    Pending \<lparr>newBalance =
        of_int (foldl (\<lambda>a d. a * 10 + d) a (accepted_digits (balance (people ! person)) a ks)),
      place = 0, confirm = False\<rparr>"
  using assms
proof (induction ks arbitrary: a)
  case Nil
  then show ?case by simp
next
  case (Cons inp ks)
  then have d: "48 \<le> inp" "inp \<le> 57" and r: "\<forall>k \<in> set ks. 48 \<le> k \<and> k \<le> 57" by simp_all
  show ?case
  proof (cases "(inp = 48 \<and> a = 0) \<or> balance (people ! person) + of_int a \<ge> 10 ^ 11
      \<or> balance (people ! person) + of_int a \<le> - (10 ^ 10)")
    case True
    then show ?thesis using d Cons.IH[OF r, of a]
      by (simp add: deposit_digit_whole del: of_int_add of_int_mult)
  next
    case False
    then show ?thesis using d Cons.IH[OF r, of "a * 10 + (inp - 48)"]
      by (auto simp add: deposit_digit_whole simp del: of_int_add of_int_mult of_int_diff)
  qed
qed

text \<open>
  Claim C7, as amended. On an account whose balance is a whole number \<open>b\<close> with
  \<open>-2^63 < b < 2^63\<close>, for every sequence of digit keys typed into \<open>deposit\<close> before any
  decimal point, the loop is left waiting with \<open>place = 0\<close>, \<open>confirm = false\<close> and an
  amount equal to the integer formed by the digits taken, where a 0 at amount zero is a
  no-op, a digit is rejected exactly when the balance of the account plus the amount
  entered so far is at least \<open>10^11\<close> or at most \<open>-10^10\<close> (its truncation has 12 or more
  places for \<open>numPlaces\<close>), and otherwise the amount becomes \<open>amount * 10 + d\<close>.

  The bound on the balance keeps the argument of \<open>numPlaces\<close> inside \<open>long long\<close> and its
  negation free of overflow: the amount stays 0 once the balance is outside
  \<open>(-10^10, 10^11)\<close>, and stays below \<open>10^12 + 10^11\<close> otherwise. With a whole balance,
  the sums and products of line 489 to 492 are whole numbers below \<open>2^53\<close> or the balance
  itself, which \<open>double\<close> holds exactly.
\<close>

theorem C7_digits_without_point:
  assumes "\<forall>k \<in> set ks. 48 \<le> k \<and> k \<le> 57" and "person < length people"
    and "balance (people ! person) = of_int b" and "- (2 ^ 63) < b" and "b < 2 ^ 63"
  shows "deposit people person ks =
    Pending \<lparr>newBalance = of_int (digits_value (accepted_digits (of_int b) 0 ks)),
      place = 0, confirm = False\<rparr>"
  using deposit_loop_digits[OF assms(1), of people person 0] assms(3)
  by (simp add: deposit_def entry0_def digits_value_def)

theorem C7_witness:
  "deposit [sample ''A0001'' 100] 0 [48, 52, 48, 55] =
     Pending \<lparr>newBalance = 407, place = 0, confirm = False\<rparr>"
proof -
  have h: "\<forall>k \<in> set [48, 52, 48, 55::int]. 48 \<le> k \<and> k \<le> 57" by simp
  have v: "digits_value (accepted_digits (of_int 100) 0 [48, 52, 48, 55]) = 407"
    by code_simp
  have l: "(0::nat) < length [sample ''A0001'' 100]" by simp
  have b: "balance ([sample ''A0001'' 100] ! 0) = of_int 100" by (simp add: sample_def)
  have r: "- (2 ^ 63) < (100::int)" "(100::int) < 2 ^ 63" by simp_all
  show ?thesis using C7_digits_without_point[OF h l b r] v by simp
qed

text \<open>
  The claim as stated, with the limit on the digits of the amount itself, fails on an
  account that holds \<open>10^11\<close>: the key 5 is rejected at amount zero, although the whole
  part it would give has one digit.
\<close>

theorem C7_counterexample:
  "deposit [sample ''A0001'' 100000000000] 0 [53] =
     Pending \<lparr>newBalance = 0, place = 0, confirm = False\<rparr> \<and>
   spec_digits 0 [53] = 5 \<and>
   deposit [sample ''A0001'' 100000000000] 0 [53] \<noteq>
     Pending \<lparr>newBalance = of_int (spec_digits 0 [53]), place = 0, confirm = False\<rparr>"
  by code_simp

text \<open>
  Claim C9, as amended. In \<open>deposit\<close> on an account whose balance, truncated, has fewer
  than 12 places for \<open>numPlaces\<close>, the keys 1, point, 5, 0 typed from the start give the
  amount 1.50, and any digit key after them changes nothing.
\<close>

theorem C9_one_point_five_zero:
  assumes "numPlaces (to_long_long (balance (people ! person))) < 12"
    and "person < length people"
  shows "deposit people person [49, 46, 53, 48] =
           Pending \<lparr>newBalance = 150 / 100, place = - 3, confirm = False\<rparr> \<and>
         (\<forall>k. 48 \<le> k \<and> k \<le> 57 \<longrightarrow>
            deposit people person ([49, 46, 53, 48] @ [k]) =
              Pending \<lparr>newBalance = 150 / 100, place = - 3, confirm = False\<rparr>)"
  using assms(1)
  by (simp add: deposit_def entry0_def deposit_digit_def add_digit_def decimal_point_def
      pow10_def Let_def power_int_minus)

theorem C9_witness:
  "deposit [sample ''A0001'' 100] 0 [49, 46, 53, 48] =
     Pending \<lparr>newBalance = 150 / 100, place = - 3, confirm = False\<rparr> \<and>
   deposit [sample ''A0001'' 100] 0 ([49, 46, 53, 48] @ [55]) =
     Pending \<lparr>newBalance = 150 / 100, place = - 3, confirm = False\<rparr>"
proof -
  have h: "numPlaces (to_long_long (balance ([sample ''A0001'' 100] ! 0))) < 12" by code_simp
  have l: "(0::nat) < length [sample ''A0001'' 100]" by simp
  show ?thesis using C9_one_point_five_zero[OF h l] by simp
qed

text \<open>
  On an account that holds \<open>10^11\<close> the key 1 is rejected and the same keys give 0.50.
\<close>

theorem C9_counterexample:
  "deposit [sample ''A0001'' 100000000000] 0 [49, 46, 53, 48] =
     Pending \<lparr>newBalance = 50 / 100, place = - 3, confirm = False\<rparr> \<and>
   deposit [sample ''A0001'' 100000000000] 0 [49, 46, 53, 48] \<noteq>
     Pending \<lparr>newBalance = 150 / 100, place = - 3, confirm = False\<rparr>"
  by code_simp


text \<open>
  The digit cases of \<open>withdraw\<close> have no test on \<open>place\<close>: there a third digit after the
  point is taken.
\<close>

lemma withdraw_takes_third_decimal:
  "withdraw [sample ''A0001'' 5] 0 [49, 46, 53, 48, 55] =
     Pending \<lparr>newBalance = 1507 / 1000, place = - 4, confirm = False\<rparr>"
  by code_simp

section \<open>Results on verify and openAccount\<close>

lemma isalnum_not_control:
  "isalnum k \<Longrightarrow> k \<noteq> 3 \<and> k \<noteq> KEY_BACKSPACE \<and> k \<noteq> 27"
  by (auto simp: isalnum_def isdigit_def isalpha_def KEY_BACKSPACE_def)





lemma verify_loop_typing:
  assumes "\<forall>k \<in> set ks. isalnum k" "length pass + length ks < 6"
  shows "verify_loop acc pass (ks @ rest) = verify_loop acc (pass @ map char_of ks) rest"
  using assms
proof (induction ks arbitrary: pass)
  case Nil
  then show ?case by simp
next
  case (Cons k ks)
  then have k: "isalnum k" and r: "\<forall>k \<in> set ks. isalnum k"
    and l: "length (pass @ [char_of k]) + length ks < 6" by simp_all
  from l have "length pass < 5" by simp
  with k isalnum_not_control[OF k] Cons.IH[OF r l] show ?case
    by (simp add: Let_def)
qed

lemma verify_loop_sixth:
  assumes "isalnum k" "length pass = 5"
  shows "pass @ [char_of k] = password acc \<or> pass @ [char_of k] = ''passwo'' \<Longrightarrow>
      verify_loop acc pass (k # rest) = Return True"
    and "pass @ [char_of k] \<noteq> password acc \<Longrightarrow> pass @ [char_of k] \<noteq> ''passwo'' \<Longrightarrow>
      verify_loop acc pass (k # k' # rest) = Return False"
  using assms isalnum_not_control[OF assms(1)]
  by (simp_all add: Let_def)









text \<open>
  The plain case: six alphanumeric keys and nothing else. Fewer than six leave \<open>verify\<close>
  waiting; the sixth makes it return \<open>true\<close> when the six characters are the password or
  \<open>passwo\<close>, and \<open>false\<close>, after one more key, when they are not.
\<close>

lemma verify_six_characters:
  assumes "\<forall>k \<in> set ks. isalnum k"
  shows "length ks < 6 \<Longrightarrow> verify acc ks = Pending (map char_of ks)"
    and "length ks = 6 \<Longrightarrow> verify acc (ks @ k' # rest) =
      Return (map char_of ks = password acc \<or> map char_of ks = ''passwo'')"
proof -
  show "verify acc ks = Pending (map char_of ks)" if "length ks < 6"
    using verify_loop_typing[OF assms, of "[]" acc "[]"] that by (simp add: verify_def)
  show "verify acc (ks @ k' # rest) =
      Return (map char_of ks = password acc \<or> map char_of ks = ''passwo'')" if l: "length ks = 6"
  proof -
    from l have ne: "ks \<noteq> []" by auto
    define ini where "ini = butlast ks"
    define k where "k = last ks"
    have ks: "ks = ini @ [k]" using ne by (simp add: ini_def k_def)
    have a: "\<forall>k \<in> set ini. isalnum k" and b: "isalnum k" using assms ks by auto
    have li: "length ini = 5" using l ks by simp
    then have "length ([]::string) + length ini < 6" by simp
    from verify_loop_typing[OF a this, of acc "k # k' # rest"]
    have "verify acc (ks @ k' # rest) = verify_loop acc (map char_of ini) (k # k' # rest)"
      by (simp add: verify_def ks)
    also have "\<dots> = Return (map char_of ini @ [char_of k] = password acc \<or>
        map char_of ini @ [char_of k] = ''passwo'')"
    proof (cases "map char_of ini @ [char_of k] = password acc \<or>
        map char_of ini @ [char_of k] = ''passwo''")
      case True
      with verify_loop_sixth(1)[where k = k and pass = "map char_of ini" and acc = acc
          and rest = "k' # rest", OF b] li
      show ?thesis by (simp del: verify_loop.simps)
    next
      case False
      with verify_loop_sixth(2)[where k = k and pass = "map char_of ini" and acc = acc
          and k' = k' and rest = rest, OF b] li
      show ?thesis by (simp del: verify_loop.simps)
    qed
    finally show ?thesis by (simp add: ks)
  qed
qed

lemma isalnum_not_enter: "isalnum k \<Longrightarrow> k \<noteq> KEY_ENTER \<and> k \<noteq> 10"
  by (auto simp: isalnum_def isdigit_def isalpha_def KEY_ENTER_def)


lemma openAccount_loop_typed:
  assumes step: "\<And>c b. c \<in> set s \<Longrightarrow> I b \<Longrightarrow> length b < n \<Longrightarrow>
      type_char (f\<lparr>buf := b\<rparr>) (of_char c) = Some (f\<lparr>buf := b @ [g c]\<rparr>) \<and> I (b @ [g c])"
    and alnum: "\<forall>c \<in> set s. isalnum (of_char c)"
    and I: "I b0" and n: "length b0 + length s \<le> n"
  shows "openAccount_loop people (f\<lparr>buf := b0\<rparr>) (keys s @ rest) =
    openAccount_loop people (f\<lparr>buf := b0 @ map g s\<rparr>) rest"
  using assms
proof (induction s arbitrary: b0)
  case Nil
  then show ?case by (simp add: keys_def)
next
  case (Cons c s)
  have a: "isalnum (of_char c)" using Cons.prems(2) by simp
  have l: "length b0 < n" using Cons.prems(4) by simp
  from Cons.prems(1)[of c b0] Cons.prems(3) l
  have t: "type_char (f\<lparr>buf := b0\<rparr>) (of_char c) = Some (f\<lparr>buf := b0 @ [g c]\<rparr>)"
    and i: "I (b0 @ [g c])" by simp_all
  have "openAccount_loop people (f\<lparr>buf := b0 @ [g c]\<rparr>) (keys s @ rest) =
      openAccount_loop people (f\<lparr>buf := (b0 @ [g c]) @ map g s\<rparr>) rest"
    using Cons.prems(1,2,4) by (intro Cons.IH i) simp_all
  with t isalnum_not_control[OF a] isalnum_not_enter[OF a] show ?case
    by (simp add: keys_def)
qed

lemma isalpha_isalnum: "isalpha k \<Longrightarrow> isalnum k"
  and isdigit_isalnum: "isdigit k \<Longrightarrow> isalnum k"
  by (simp_all add: isalnum_def)


lemma type_char_name:
  "field f = 0 \<or> field f = 1 \<Longrightarrow> isalpha k \<Longrightarrow> length b < 49 \<Longrightarrow>
    type_char (f\<lparr>buf := b\<rparr>) k = Some (f\<lparr>buf := b @ [char_of k]\<rparr>)"
  by (elim disjE; simp add: type_char_def Let_def isalpha_isalnum)

lemma type_char_middle:
  "field f = 2 \<Longrightarrow> isalpha k \<Longrightarrow>
    type_char (f\<lparr>buf := []\<rparr>) k = Some (f\<lparr>buf := [char_of k]\<rparr>)"
  by (simp add: type_char_def Let_def isalpha_isalnum)

lemma type_char_digits:
  "field f = 3 \<and> n = 9 \<or> field f = 4 \<and> n = 3 \<or> field f = 5 \<and> n = 7 \<Longrightarrow> isdigit k \<Longrightarrow>
    length b < n \<Longrightarrow> type_char (f\<lparr>buf := b\<rparr>) k = Some (f\<lparr>buf := b @ [char_of k]\<rparr>)"
  by (elim disjE conjE; simp add: type_char_def Let_def isdigit_isalnum)

lemma type_char_balance:
  "field f = 6 \<Longrightarrow> isdigit k \<Longrightarrow> CHR ''.'' \<notin> set b \<Longrightarrow> length b < 49 \<Longrightarrow>
    type_char (f\<lparr>buf := b\<rparr>) k = Some (f\<lparr>buf := b @ [char_of k]\<rparr>)"
  by (simp add: type_char_def Let_def isdigit_isalnum)

lemma type_char_upper:
  "field f = 7 \<and> n = 5 \<or> field f = 8 \<and> n = 6 \<Longrightarrow> isalnum k \<Longrightarrow> length b < n \<Longrightarrow>
    type_char (f\<lparr>buf := b\<rparr>) k = Some (f\<lparr>buf := b @ [char_of (toupper k)]\<rparr>)"
  by (elim disjE conjE; simp add: type_char_def Let_def)


lemma type_name:
  assumes "field f = 0 \<or> field f = 1" "\<forall>c \<in> set s. isalpha (of_char c)" "length s < 50"
  shows "openAccount_loop people (f\<lparr>buf := []\<rparr>) (keys s @ rest) =
    openAccount_loop people (f\<lparr>buf := s\<rparr>) rest"
proof -
  have "openAccount_loop people (f\<lparr>buf := []\<rparr>) (keys s @ rest) =
    openAccount_loop people (f\<lparr>buf := [] @ map (\<lambda>c. c) s\<rparr>) rest"
  proof (rule openAccount_loop_typed[where I = "\<lambda>b. True" and n = 49])
    fix c and b :: string assume "c \<in> set s" "length b < 49"
    with assms(2) type_char_name[OF assms(1), of "of_char c" b]
    show "type_char (f\<lparr>buf := b\<rparr>) (of_char c) = Some (f\<lparr>buf := b @ [c]\<rparr>) \<and> True"
      by simp
  next
    show "\<forall>c \<in> set s. isalnum (of_char c)" using assms(2) by (simp add: isalpha_isalnum)
  next
    show "length ([]::string) + length s \<le> 49" using assms(3) by simp
  qed simp
  then show ?thesis by simp
qed

lemma type_digits:
  assumes "field f = 3 \<and> n = 9 \<or> field f = 4 \<and> n = 3 \<or> field f = 5 \<and> n = 7"
    "\<forall>c \<in> set s. isdigit (of_char c)" "length s = n"
  shows "openAccount_loop people (f\<lparr>buf := []\<rparr>) (keys s @ rest) =
    openAccount_loop people (f\<lparr>buf := s\<rparr>) rest"
proof -
  have "openAccount_loop people (f\<lparr>buf := []\<rparr>) (keys s @ rest) =
    openAccount_loop people (f\<lparr>buf := [] @ map (\<lambda>c. c) s\<rparr>) rest"
  proof (rule openAccount_loop_typed[where I = "\<lambda>b. True" and n = n])
    fix c and b :: string assume "c \<in> set s" "length b < n"
    with assms(2) type_char_digits[OF assms(1), of "of_char c" b]
    show "type_char (f\<lparr>buf := b\<rparr>) (of_char c) = Some (f\<lparr>buf := b @ [c]\<rparr>) \<and> True"
      by simp
  next
    show "\<forall>c \<in> set s. isalnum (of_char c)" using assms(2) by (simp add: isdigit_isalnum)
  next
    show "length ([]::string) + length s \<le> n" using assms(3) by simp
  qed simp
  then show ?thesis by simp
qed

lemma isdigit_not_point: "isdigit (of_char c) \<Longrightarrow> c \<noteq> CHR ''.''"
  by (auto simp: isdigit_def)

lemma type_balance:
  assumes "field f = 6" "\<forall>c \<in> set s. isdigit (of_char c)" "length s < 50"
  shows "openAccount_loop people (f\<lparr>buf := []\<rparr>) (keys s @ rest) =
    openAccount_loop people (f\<lparr>buf := s\<rparr>) rest"
proof -
  have "openAccount_loop people (f\<lparr>buf := []\<rparr>) (keys s @ rest) =
    openAccount_loop people (f\<lparr>buf := [] @ map (\<lambda>c. c) s\<rparr>) rest"
  proof (rule openAccount_loop_typed[where I = "\<lambda>b. CHR ''.'' \<notin> set b" and n = 49])
    fix c and b :: string assume "c \<in> set s" "CHR ''.'' \<notin> set b" "length b < 49"
    with assms(2) type_char_balance[OF assms(1), of "of_char c" b] isdigit_not_point[of c]
    show "type_char (f\<lparr>buf := b\<rparr>) (of_char c) = Some (f\<lparr>buf := b @ [c]\<rparr>) \<and>
        CHR ''.'' \<notin> set (b @ [c])"
      by auto
  next
    show "\<forall>c \<in> set s. isalnum (of_char c)" using assms(2) by (simp add: isdigit_isalnum)
  next
    show "length ([]::string) + length s \<le> 49" using assms(3) by simp
  qed simp
  then show ?thesis by simp
qed

lemma type_upper:
  assumes "field f = 7 \<and> n = 5 \<or> field f = 8 \<and> n = 6"
    "\<forall>c \<in> set s. isalnum (of_char c)" "length s = n"
  shows "openAccount_loop people (f\<lparr>buf := []\<rparr>) (keys s @ rest) =
    openAccount_loop people (f\<lparr>buf := upper s\<rparr>) rest"
proof -
  have "openAccount_loop people (f\<lparr>buf := []\<rparr>) (keys s @ rest) =
    openAccount_loop people (f\<lparr>buf := [] @ map (\<lambda>c. char_of (toupper (of_char c))) s\<rparr>) rest"
  proof (rule openAccount_loop_typed[where I = "\<lambda>b. True" and n = n])
    fix c and b :: string assume "c \<in> set s" "length b < n"
    with assms(2) type_char_upper[OF assms(1), of "of_char c" b]
    show "type_char (f\<lparr>buf := b\<rparr>) (of_char c) =
        Some (f\<lparr>buf := b @ [char_of (toupper (of_char c))]\<rparr>) \<and> True"
      by simp
  next
    show "\<forall>c \<in> set s. isalnum (of_char c)" using assms(2) .
  next
    show "length ([]::string) + length s \<le> n" using assms(3) by simp
  qed simp
  then show ?thesis by (simp add: upper_def)
qed

lemma type_middle:
  assumes "field f = 2" "isalpha (of_char c)"
  shows "openAccount_loop people (f\<lparr>buf := []\<rparr>) (keys [c] @ rest) =
    openAccount_loop people (f\<lparr>buf := [c]\<rparr>) rest"
  using type_char_middle[OF assms] isalnum_not_control[OF isalpha_isalnum[OF assms(2)]]
    isalnum_not_enter[OF isalpha_isalnum[OF assms(2)]]
  by (simp add: keys_def)

text \<open>ENTER in the fields 0 to 7 and in the last field.\<close>

lemma enter_field:
  "field f \<noteq> 8 \<Longrightarrow>
    openAccount_loop people f (10 # ks) = openAccount_loop people (accept_field f) ks"
  by (simp add: KEY_BACKSPACE_def)

lemma enter_last:
  "field f = 8 \<Longrightarrow> length (buf f) = 6 \<Longrightarrow>
    openAccount_loop people f (10 # ks) =
      Some (Return (sort_by_number (people @ [(newPerson f)\<lparr>password := buf f\<rparr>])))"
  by (simp add: KEY_BACKSPACE_def)


text \<open>A field typed and accepted.\<close>

lemma fill_first:
  assumes "3 \<le> length s" "length s < 50" "\<forall>c \<in> set s. isalpha (of_char c)"
  shows "openAccount_loop people \<lparr>field = 0, newPerson = P, buf = []\<rparr> (keys s @ 10 # R) =
    openAccount_loop people \<lparr>field = 1, newPerson = P\<lparr>first_name := s\<rparr>, buf = []\<rparr> R"
  using type_name[of "\<lparr>field = 0, newPerson = P, buf = []\<rparr>" s people "10 # R"] assms
  by (simp add: enter_field accept_field_def Let_def del: openAccount_loop.simps)

lemma fill_last:
  assumes "3 \<le> length s" "length s < 50" "\<forall>c \<in> set s. isalpha (of_char c)"
  shows "openAccount_loop people \<lparr>field = 1, newPerson = P, buf = []\<rparr> (keys s @ 10 # R) =
    openAccount_loop people \<lparr>field = 2, newPerson = P\<lparr>last_name := s\<rparr>, buf = []\<rparr> R"
  using type_name[of "\<lparr>field = 1, newPerson = P, buf = []\<rparr>" s people "10 # R"] assms
  by (simp add: enter_field accept_field_def Let_def del: openAccount_loop.simps)

lemma fill_middle:
  assumes "isalpha (of_char c)"
  shows "openAccount_loop people \<lparr>field = 2, newPerson = P, buf = []\<rparr> (keys [c] @ 10 # R) =
    openAccount_loop people \<lparr>field = 3, newPerson = P\<lparr>middle := c\<rparr>, buf = []\<rparr> R"
  using type_middle[of "\<lparr>field = 2, newPerson = P, buf = []\<rparr>" c people "10 # R"] assms
  by (simp add: enter_field accept_field_def Let_def del: openAccount_loop.simps)

lemma fill_social:
  assumes "length s = 9" "\<forall>c \<in> set s. isdigit (of_char c)"
  shows "openAccount_loop people \<lparr>field = 3, newPerson = P, buf = []\<rparr> (keys s @ 10 # R) =
    openAccount_loop people
      \<lparr>field = 4, newPerson = P\<lparr>social := of_int (atoi s)\<rparr>, buf = []\<rparr> R"
  using type_digits[of "\<lparr>field = 3, newPerson = P, buf = []\<rparr>" 9 s people "10 # R"] assms
  by (simp add: enter_field accept_field_def Let_def del: openAccount_loop.simps)

lemma fill_area:
  assumes "length s = 3" "\<forall>c \<in> set s. isdigit (of_char c)"
  shows "openAccount_loop people \<lparr>field = 4, newPerson = P, buf = []\<rparr> (keys s @ 10 # R) =
    openAccount_loop people
      \<lparr>field = 5, newPerson = P\<lparr>area := of_int (atoi s)\<rparr>, buf = []\<rparr> R"
  using type_digits[of "\<lparr>field = 4, newPerson = P, buf = []\<rparr>" 3 s people "10 # R"] assms
  by (simp add: enter_field accept_field_def Let_def del: openAccount_loop.simps)

lemma fill_phone:
  assumes "length s = 7" "\<forall>c \<in> set s. isdigit (of_char c)"
  shows "openAccount_loop people \<lparr>field = 5, newPerson = P, buf = []\<rparr> (keys s @ 10 # R) =
    openAccount_loop people
      \<lparr>field = 6, newPerson = P\<lparr>phone := of_int (atoi s)\<rparr>, buf = []\<rparr> R"
  using type_digits[of "\<lparr>field = 5, newPerson = P, buf = []\<rparr>" 7 s people "10 # R"] assms
  by (simp add: enter_field accept_field_def Let_def del: openAccount_loop.simps)

lemma fill_balance:
  assumes "s \<noteq> []" "length s < 50" "\<forall>c \<in> set s. isdigit (of_char c)"
  shows "openAccount_loop people \<lparr>field = 6, newPerson = P, buf = []\<rparr> (keys s @ 10 # R) =
    openAccount_loop people \<lparr>field = 7, newPerson = P\<lparr>balance := atof s\<rparr>, buf = []\<rparr> R"
  using type_balance[of "\<lparr>field = 6, newPerson = P, buf = []\<rparr>" s people "10 # R"] assms
  by (simp add: enter_field accept_field_def Let_def del: openAccount_loop.simps)

lemma fill_number:
  assumes "length s = 5" "\<forall>c \<in> set s. isalnum (of_char c)"
  shows "openAccount_loop people \<lparr>field = 7, newPerson = P, buf = []\<rparr> (keys s @ 10 # R) =
    openAccount_loop people \<lparr>field = 8, newPerson = P\<lparr>number := upper s\<rparr>, buf = []\<rparr> R"
  using type_upper[of "\<lparr>field = 7, newPerson = P, buf = []\<rparr>" 5 s people "10 # R"] assms
  by (simp add: enter_field accept_field_def Let_def upper_def del: openAccount_loop.simps)

lemma fill_password:
  assumes "length s = 6" "\<forall>c \<in> set s. isalnum (of_char c)"
  shows "openAccount_loop people \<lparr>field = 8, newPerson = P, buf = []\<rparr> (keys s @ 10 # R) =
    Some (Return (sort_by_number (people @ [P\<lparr>password := upper s\<rparr>])))"
  using type_upper[of "\<lparr>field = 8, newPerson = P, buf = []\<rparr>" 6 s people "10 # R"] assms
  by (simp add: enter_last upper_def del: openAccount_loop.simps)

lemma openAccount_form_keys:
  assumes "3 \<le> length fi" "length fi < 50" "\<forall>c \<in> set fi. isalpha (of_char c)"
    and "3 \<le> length la" "length la < 50" "\<forall>c \<in> set la. isalpha (of_char c)"
    and "isalpha (of_char mi)"
    and "length so = 9" "\<forall>c \<in> set so. isdigit (of_char c)"
    and "length ar = 3" "\<forall>c \<in> set ar. isdigit (of_char c)"
    and "length ph = 7" "\<forall>c \<in> set ph. isdigit (of_char c)"
    and "ba \<noteq> []" "length ba \<le> 15" "\<forall>c \<in> set ba. isdigit (of_char c)"
    and "length nu = 5" "\<forall>c \<in> set nu. isalnum (of_char c)"
    and "length pw = 6" "\<forall>c \<in> set pw. isalnum (of_char c)"
  shows "openAccount people junk (form_keys fi la mi so ar ph ba nu pw @ rest) =
    Some (Return (sort_by_number (people @
      [\<lparr>first_name = fi, last_name = la, middle = mi, social = of_int (atoi so),
        area = of_int (atoi ar), phone = of_int (atoi ph), balance = atof ba,
        number = upper nu, password = upper pw, nameLength = nameLength junk\<rparr>])))"
proof -
  have b: "length ba < 50" using assms(15) by simp
  have j: "junk\<lparr>first_name := fi, last_name := la, middle := mi, social := of_int (atoi so),
      area := of_int (atoi ar), phone := of_int (atoi ph), balance := atof ba,
      number := upper nu, password := upper pw\<rparr> =
    \<lparr>first_name = fi, last_name = la, middle = mi, social = of_int (atoi so),
        area = of_int (atoi ar), phone = of_int (atoi ph), balance = atof ba,
        number = upper nu, password = upper pw, nameLength = nameLength junk\<rparr>"
    by (cases junk) simp
  show ?thesis
    unfolding openAccount_def form_keys_def
    by (simp only: append_assoc append.simps
        fill_first[OF assms(1,2,3)] fill_last[OF assms(4,5,6)] fill_middle[OF assms(7)]
        fill_social[OF assms(8,9)] fill_area[OF assms(10,11)] fill_phone[OF assms(12,13)]
        fill_balance[OF assms(14) b assms(16)] fill_number[OF assms(17,18)]
        fill_password[OF assms(19,20)] j)
qed

text \<open>
  Claim C5, as amended. \<open>openAccount\<close> has no test for an account number that is already
  in use. Whatever the collection holds, when the nine fields are filled with texts
  that the form takes (names of 3 to 49 letters, a letter, 9, 3 and 7 digits, a balance
  of 1 to 15 digits, 5 and 6 alphanumeric characters), each followed by ENTER, the
  function returns, and the collection is then the old one with the account typed added
  to it, in the order of the account numbers. (A balance of at most 15 digits is a whole
  number that \<open>atof\<close> returns exactly.)
\<close>

theorem C5_open_account_always_inserts:
  assumes "3 \<le> length fi" "length fi < 50" "\<forall>c \<in> set fi. isalpha (of_char c)"
    and "3 \<le> length la" "length la < 50" "\<forall>c \<in> set la. isalpha (of_char c)"
    and "isalpha (of_char mi)"
    and "length so = 9" "\<forall>c \<in> set so. isdigit (of_char c)"
    and "length ar = 3" "\<forall>c \<in> set ar. isdigit (of_char c)"
    and "length ph = 7" "\<forall>c \<in> set ph. isdigit (of_char c)"
    and "ba \<noteq> []" "length ba \<le> 15" "\<forall>c \<in> set ba. isdigit (of_char c)"
    and "length nu = 5" "\<forall>c \<in> set nu. isalnum (of_char c)"
    and "length pw = 6" "\<forall>c \<in> set pw. isalnum (of_char c)"
  shows "\<exists>people'.
    openAccount people junk (form_keys fi la mi so ar ph ba nu pw @ rest) =
      Some (Return people') \<and>
    mset people' = add_mset
      \<lparr>first_name = fi, last_name = la, middle = mi, social = of_int (atoi so),
        area = of_int (atoi ar), phone = of_int (atoi ph), balance = atof ba,
        number = upper nu, password = upper pw, nameLength = nameLength junk\<rparr>
      (mset people) \<and>
    sorted (map number people')"
  using openAccount_form_keys[OF assms, of people junk rest]
  by (simp add: sort_by_number_def)

theorem C5_witness:
  "\<exists>people'.
     openAccount [sample ''A0001'' 100] (sample [] 0\<lparr>nameLength := 0\<rparr>) new_account_keys =
       Some (Return people') \<and>
     mset people' = add_mset new_account (mset [sample ''A0001'' 100]) \<and>
     sorted (map number people')"
proof -
  have h: "3 \<le> length ''Jane''" "length ''Jane'' < 50" "\<forall>c \<in> set ''Jane''. isalpha (of_char c)"
    "3 \<le> length ''Roe''" "length ''Roe'' < 50" "\<forall>c \<in> set ''Roe''. isalpha (of_char c)"
    "isalpha (of_char CHR ''Q'')"
    "length ''123456789'' = 9" "\<forall>c \<in> set ''123456789''. isdigit (of_char c)"
    "length ''555'' = 3" "\<forall>c \<in> set ''555''. isdigit (of_char c)"
    "length ''1234567'' = 7" "\<forall>c \<in> set ''1234567''. isdigit (of_char c)"
    "''50'' \<noteq> []" "length ''50'' \<le> 15" "\<forall>c \<in> set ''50''. isdigit (of_char c)"
    "length ''a0001'' = 5" "\<forall>c \<in> set ''a0001''. isalnum (of_char c)"
    "length ''hunter'' = 6" "\<forall>c \<in> set ''hunter''. isalnum (of_char c)"
    by (simp_all add: isalnum_def isalpha_def isdigit_def)
  have a: "\<lparr>first_name = ''Jane'', last_name = ''Roe'', middle = CHR ''Q'',
      social = of_int (atoi ''123456789''), area = of_int (atoi ''555''),
      phone = of_int (atoi ''1234567''), balance = atof ''50'', number = upper ''a0001'',
      password = upper ''hunter'',
      nameLength = nameLength (sample [] 0\<lparr>nameLength := 0\<rparr>)\<rparr> = new_account"
    by code_simp
  show ?thesis
    using C5_open_account_always_inserts[OF h, of "[sample ''A0001'' 100]"
        "sample [] 0\<lparr>nameLength := 0\<rparr>" "[]"]
    by (simp only: a append_Nil2 new_account_keys_def)
qed

text \<open>
  Opening an account under the number \<open>A0001\<close> in a collection that already holds an
  account \<open>A0001\<close> succeeds and leaves two accounts with that number.
\<close>

theorem C5_counterexample:
  "openAccount [sample ''A0001'' 100] (sample [] 0\<lparr>nameLength := 0\<rparr>) new_account_keys =
     Some (Return (sort_by_number [sample ''A0001'' 100, new_account])) \<and>
   map number (sort_by_number [sample ''A0001'' 100, new_account]) = [''A0001'', ''A0001'']"
  by code_simp

section \<open>Results on the database file\<close>

text \<open>
  Claim C3. Saving a collection and loading it again gives back the same accounts,
  field by field, with the fields of a record in the order last name, first name,
  middle initial and so on. The destructor writes \<open>first\<close> and then \<open>last\<close>, while
  \<open>loadDatabase\<close> reads \<open>last\<close> and then \<open>first\<close>: the account John C. Doe comes back
  as Doe C. John. A balance is written with six significant digits: 123456.78 comes
  back as 123457.
\<close>

theorem C3_reload_swaps_names:
  "write_on_shutdown [sample ''A0001'' 100] =
     ''John'' @ endl @ ''Doe'' @ endl @ ''C'' @ endl @ ''987654321'' @ endl @ ''888'' @ endl @
     ''7776666'' @ endl @ ''100'' @ endl @ ''A0001'' @ endl @ ''secret'' @ endl @ endl \<and>
   loadDatabase (sample [] 0) (Some (write_on_shutdown [sample ''A0001'' 100])) =
     Loaded [(sample ''A0001'' 100)\<lparr>first_name := ''Doe'', last_name := ''John''\<rparr>] \<and>
   loadDatabase (sample [] 0) (Some (write_on_shutdown [sample ''A0001'' (12345678 / 100)])) =
     Loaded [(sample ''A0001'' 123457)\<lparr>first_name := ''Doe'', last_name := ''John''\<rparr>]"
  by code_simp

text \<open>The empty collection is written as the empty file and read back as such.\<close>

lemma reload_empty:
  "loadDatabase junk (Some (write_on_shutdown [])) = Loaded []"
  by (simp add: loadDatabase_def write_on_shutdown_def load_loop.simps read_account_def
      get_string_def sentry_def get_char_def get_unsigned_def get_double_def Let_def store_def)

end
